theory Spec2Isabelle
  imports Main "HOL-Library.Word" "HOL-Library.Sublist"
begin

unbundle bit_operations_syntax

section \<open>Data model of \<open>backends/dbcheck.cc\<close>\<close>

text \<open>
  \<open>Xapian::docid\<close>, \<open>Xapian::termcount\<close>, \<open>chert_revision_number_t\<close> and
  \<open>glass_revision_number_t\<close> are 32-bit unsigned integers; \<open>static_cast<docid>(-1)\<close> is
  the word \<open>- 1\<close>, and \<open>last_docid + 1\<close> wraps. The error count, and what the per-table
  checkers return, is a \<open>size_t\<close>: a 64-bit word, so that \<open>++errors\<close> and
  \<open>errors += ...\<close> wrap and \<open>errors == pre_table_check_errors\<close> compares the wrapped
  values.
\<close>

type_synonym size_t = "64 word"
type_synonym docid = "32 word"
type_synonym termcount = "32 word"
type_synonym revision = "32 word"

text \<open>
  Modelled from the spec: \<open>sizeof(Xapian::termcount)\<close>; the typedef lives in
  \<open>xapian/types.h\<close>. The comment at the head of the file gives the array's size as
  \<open>4 * last_docid()\<close> bytes.
\<close>

definition sizeof_termcount :: nat where
  "sizeof_termcount = 4"

text \<open>
  What a C++ call can throw. \<open>Xapian::DatabaseError\<close> and
  \<open>Xapian::FeatureUnavailableError\<close> derive from \<open>Xapian::Error\<close>; \<open>XapianError\<close> stands
  for every other subclass of \<open>Xapian::Error\<close>, \<open>StdException\<close> for everything that is not
  one (\<open>catch (const Xapian::Error &)\<close> lets it through).
\<close>

datatype exn =
    DatabaseError string
  | FeatureUnavailableError string
  | XapianError string
  | StdException string

fun is_xapian_error :: "exn \<Rightarrow> bool" where
  "is_xapian_error (StdException _) = False"
| "is_xapian_error _ = True"

fun is_database_error :: "exn \<Rightarrow> bool" where
  "is_database_error (DatabaseError _) = True"
| "is_database_error _ = False"

text \<open>The two exceptions of \<open>std::vector::reserve\<close> that \<open>reserve_doclens\<close> catches.\<close>

datatype alloc_failure = BadAlloc | LengthError

text \<open>\<open>vector<Xapian::termcount> doclens\<close>: its elements and its capacity.\<close>

record doclens_vec =
  elems :: "termcount list"
  capacity :: nat

definition empty_vec :: doclens_vec where
  "empty_vec = \<lparr>elems = [], capacity = 0\<rparr>"

text \<open>\<open>GlassVersion\<close> after \<open>read()\<close>: what \<open>get_revision()\<close> and \<open>get_last_docid()\<close> return.\<close>

record glass_version =
  gv_revision :: revision
  gv_last_docid :: docid

text \<open>
  Everything \<open>Database::check\<close> does to the outside: text written to \<open>*out\<close> and calls
  into the collaborators, with the arguments passed. The last argument of the two table
  checks says whether \<open>out\<close> was non-null.
\<close>

datatype event =
    Out string
  | CallReserveDoclens docid
  | Reserve nat
  | ChertDatabaseOpen string
  | DatabaseOpen string
  | GlassVersionRead string
  | GlassChangesCheck string
  | CheckChertTable string string "revision option" int doclens_vec docid bool
  | CheckGlassTable string string glass_version int doclens_vec docid bool
  | ChertVersionReadAndCheck string
  | ChertVersionCreate string

text \<open>
  The collaborators, which are not part of this file of the repository: the filesystem
  (\<open>stat(p, &sb) == 0\<close> and \<open>file_exists(p)\<close>), the build configuration, the constant
  \<open>Xapian::DBCHECK_FIX\<close>, the allocator behind \<open>vector::reserve\<close>, the two ways of opening
  a database, the version files, the changes checker and the per-table checkers. A
  collaborator that can throw returns the exception as a value. \<open>check_chert_table\<close>
  returns its error count, the vector it leaves behind and the value it leaves in
  \<open>*rev_ptr\<close>; \<open>check_glass_table\<close> its error count and the vector.
\<close>

record env =
  stat_ok :: "string \<Rightarrow> bool"
  file_exists :: "string \<Rightarrow> bool"
  has_chert_backend :: bool
  has_glass_backend :: bool
  DBCHECK_FIX :: int
  max_size :: nat
  allocate :: "nat \<Rightarrow> bool"
  get_description :: "exn \<Rightarrow> string"
  chert_database_open :: "string \<Rightarrow> exn + (docid \<times> revision)"
  database_open :: "string \<Rightarrow> exn option"
  glass_version_read :: "string \<Rightarrow> exn + glass_version"
  glass_changes_check :: "string \<Rightarrow> exn option"
  check_chert_table ::
    "string \<Rightarrow> string \<Rightarrow> revision option \<Rightarrow> int \<Rightarrow> doclens_vec \<Rightarrow> docid \<Rightarrow> bool
      \<Rightarrow> exn + (size_t \<times> doclens_vec \<times> revision)"
  check_glass_table ::
    "string \<Rightarrow> string \<Rightarrow> glass_version \<Rightarrow> int \<Rightarrow> doclens_vec \<Rightarrow> docid \<Rightarrow> bool
      \<Rightarrow> exn + (size_t \<times> doclens_vec)"
  chert_version_read_and_check :: "string \<Rightarrow> exn option"
  chert_version_create :: "string \<Rightarrow> exn option"

text \<open>
  The locals of \<open>Database::check\<close> that change during a run, and the trace of events so
  far. \<open>rev_num\<close> is the variable \<open>rev\<close> that \<open>rev_ptr\<close> points to in the chert branch.
\<close>

record st =
  doclens :: doclens_vec
  errors :: size_t
  rev_num :: revision
  trace :: "event list"

definition init_st :: st where
  "init_st = \<lparr>doclens = empty_vec, errors = 0, rev_num = 0, trace = []\<rparr>"

definition log :: "event \<Rightarrow> st \<Rightarrow> st" where
  "log e s = s\<lparr>trace := trace s @ [e]\<rparr>"

text \<open>\<open>if (out) *out << msg\<close>\<close>

definition emit :: "bool \<Rightarrow> string \<Rightarrow> st \<Rightarrow> st" where
  "emit out msg s = (if out then log (Out msg) s else s)"

definition nl :: string where
  "nl = [CHR 0x0A]"

section \<open>String helpers\<close>

text \<open>Modelled from the spec: \<open>endswith\<close> of \<open>stringutils.h\<close>, the string-ends-with test.\<close>

definition endswith :: "string \<Rightarrow> string \<Rightarrow> bool" where
  "endswith s suf = (length suf \<le> length s \<and> drop (length s - length suf) s = suf)"

definition endswith_char :: "string \<Rightarrow> char \<Rightarrow> bool" where
  "endswith_char s c = (s \<noteq> [] \<and> last s = c)"

text \<open>\<open>std::string::find_last_of(c)\<close>: the last index of \<open>c\<close>, \<open>None\<close> for \<open>npos\<close>.\<close>

fun find_last_of :: "string \<Rightarrow> char \<Rightarrow> nat option" where
  "find_last_of [] c = None"
| "find_last_of (x # xs) c =
     (case find_last_of xs c of
        Some i \<Rightarrow> Some (Suc i)
      | None \<Rightarrow> (if x = c then Some 0 else None))"

text \<open>\<open>tolower\<close> on an \<open>unsigned char\<close>, in the C locale.\<close>

definition tolower :: "char \<Rightarrow> char" where
  "tolower c =
     (case map_of (zip ''ABCDEFGHIJKLMNOPQRSTUVWXYZ'' ''abcdefghijklmnopqrstuvwxyz'') c of
        None \<Rightarrow> c
      | Some l \<Rightarrow> l)"

text \<open>Modelled from the spec: \<open>str\<close> of \<open>str.h\<close>, the revision number as decimal.\<close>

definition digit_char :: "nat \<Rightarrow> char" where
  "digit_char d = ''0123456789'' ! d"

fun str :: "nat \<Rightarrow> string" where
  "str n = (if n < 10 then [digit_char n] else str (n div 10) @ [digit_char (n mod 10)])"

declare str.simps [simp del]

section \<open>\<open>reserve_doclens\<close>\<close>

text \<open>
  Modelled from the spec: \<open>std::vector::reserve(n)\<close> of the C++ library. It throws
  \<open>length_error\<close> when \<open>n > max_size()\<close>, does nothing when the capacity suffices, and
  otherwise allocates, which throws \<open>bad_alloc\<close> when the allocator refuses.
\<close>

definition vector_reserve :: "env \<Rightarrow> nat \<Rightarrow> doclens_vec \<Rightarrow> alloc_failure + doclens_vec" where
  "vector_reserve env n v =
     (if max_size env < n then Inl LengthError
      else if n \<le> capacity v then Inr v
      else if allocate env n then Inr (v\<lparr>capacity := n\<rparr>)
      else Inl BadAlloc)"

definition msg_too_large :: string where
  "msg_too_large =
     ''Cross-checking document lengths between the postlist and '' @
     ''termlist tables would use more than 1GB of memory, so '' @
     ''skipping that check'' @ nl"

definition msg_bad_alloc :: string where
  "msg_bad_alloc =
     ''Couldn't allocate enough memory for cross-checking document '' @
     ''lengths between the postlist and termlist tables, so '' @
     ''skipping that check'' @ nl"

definition msg_length_error :: string where
  "msg_length_error =
     ''Couldn't allocate enough elements for cross-checking document '' @
     ''lengths between the postlist and termlist tables, so '' @
     ''skipping that check'' @ nl"

definition reserve_doclens :: "env \<Rightarrow> docid \<Rightarrow> bool \<Rightarrow> st \<Rightarrow> st" where
  "reserve_doclens env last_docid out s0 =
     (let s = log (CallReserveDoclens last_docid) s0 in
      if 0x40000000 div sizeof_termcount \<le> unat last_docid then emit out msg_too_large s
      else
        (let n = unat (last_docid + 1); s1 = log (Reserve n) s in
         case vector_reserve env n (doclens s1) of
           Inr v \<Rightarrow> s1\<lparr>doclens := v\<rparr>
         | Inl BadAlloc \<Rightarrow> emit out msg_bad_alloc s1
         | Inl LengthError \<Rightarrow> emit out msg_length_error s1))"

section \<open>Whole chert database\<close>

definition msg_open_failed :: "env \<Rightarrow> exn \<Rightarrow> string" where
  "msg_open_failed env e =
     ''Database couldn't be opened for reading: '' @ get_description env e @
     nl @ ''Continuing check anyway'' @ nl"

text \<open>
  The \<open>try\<close> block that opens the database at the lower level. It returns the exception
  that escapes, if any, the state, and \<open>db_last_docid\<close>.
\<close>

definition chert_open :: "env \<Rightarrow> string \<Rightarrow> bool \<Rightarrow> st \<Rightarrow> exn option \<times> st \<times> docid" where
  "chert_open env path out s0 =
     (let s = log (ChertDatabaseOpen path) s0 in
      case chert_database_open env path of
        Inr (last_docid, revno) \<Rightarrow>
          (None, (reserve_doclens env last_docid out s)\<lparr>rev_num := revno\<rparr>, last_docid)
      | Inl e \<Rightarrow>
          if is_xapian_error e
          then (None, (emit out (msg_open_failed env e) s)\<lparr>errors := errors s + 1\<rparr>, - 1)
          else (Some e, s, - 1))"

definition chert_tables :: "string list" where
  "chert_tables =
     [''record'', ''termlist'', ''postlist'', ''position'', ''spelling'', ''synonym'']"

text \<open>What is written for a table whose \<open>.DB\<close> file does not exist.\<close>

definition msg_absent :: "string \<Rightarrow> string" where
  "msg_absent t =
     (if t = ''termlist'' then ''Not present.'' @ nl
      else ''Lazily created, and not yet used.'' @ nl) @ nl"

text \<open>One iteration of the loop over the tables.\<close>

definition chert_table_step ::
  "env \<Rightarrow> string \<Rightarrow> int \<Rightarrow> bool \<Rightarrow> docid \<Rightarrow> string \<Rightarrow> st \<Rightarrow> exn option \<times> st" where
  "chert_table_step env path opts out db_last_docid t s0 =
     (let table = path @ ''/'' @ t;
          s = emit out (t @ '':'' @ nl) s0
      in
      if t \<noteq> ''record'' \<and> t \<noteq> ''postlist'' \<and> \<not> file_exists env (table @ ''.DB'')
      then
        (None, emit out (msg_absent t) s)
      else
        (let s1 = log (CheckChertTable t table (Some (rev_num s)) opts (doclens s) db_last_docid out) s
         in
         case check_chert_table env t table (Some (rev_num s)) opts (doclens s) db_last_docid out of
           Inl e \<Rightarrow> (Some e, s1)
         | Inr (n, v, r) \<Rightarrow> (None, s1\<lparr>errors := errors s1 + n, doclens := v, rev_num := r\<rparr>)))"

fun chert_table_loop ::
  "env \<Rightarrow> string \<Rightarrow> int \<Rightarrow> bool \<Rightarrow> docid \<Rightarrow> string list \<Rightarrow> st \<Rightarrow> exn option \<times> st" where
  "chert_table_loop env path opts out db_last_docid [] s = (None, s)"
| "chert_table_loop env path opts out db_last_docid (t # ts) s =
     (case chert_table_step env path opts out db_last_docid t s of
        (Some e, s') \<Rightarrow> (Some e, s')
      | (None, s') \<Rightarrow> chert_table_loop env path opts out db_last_docid ts s')"

text \<open>\<open>ChertVersion iam(path)\<close>, \<open>read_and_check()\<close>, and \<open>create()\<close> on a \<open>DatabaseError\<close>.\<close>

definition chert_version_repair :: "env \<Rightarrow> string \<Rightarrow> st \<Rightarrow> exn option \<times> st" where
  "chert_version_repair env path s0 =
     (let s = log (ChertVersionReadAndCheck path) s0 in
      case chert_version_read_and_check env path of
        None \<Rightarrow> (None, s)
      | Some e \<Rightarrow>
          if is_database_error e
          then (chert_version_create env path, log (ChertVersionCreate path) s)
          else (Some e, s))"

definition check_chert_db :: "env \<Rightarrow> string \<Rightarrow> int \<Rightarrow> bool \<Rightarrow> st \<Rightarrow> exn option \<times> st" where
  "check_chert_db env path opts out s0 =
     (if \<not> has_chert_backend env
      then (Some (FeatureUnavailableError ''Chert database support isn't enabled''), s0)
      else
        (case chert_open env path out s0 of
           (Some e, s, db_last_docid) \<Rightarrow> (Some e, s)
         | (None, s, db_last_docid) \<Rightarrow>
             (let pre_table_check_errors = errors s in
              case chert_table_loop env path opts out db_last_docid chert_tables s of
                (Some e, s') \<Rightarrow> (Some e, s')
              | (None, s') \<Rightarrow>
                  if errors s' = pre_table_check_errors \<and> opts AND DBCHECK_FIX env \<noteq> 0
                  then chert_version_repair env path s'
                  else (None, s'))))"

section \<open>Whole glass database\<close>

text \<open>\<open>try { Xapian::Database db(path); } catch (const Xapian::Error & e) { ... }\<close>\<close>

definition glass_open :: "env \<Rightarrow> string \<Rightarrow> bool \<Rightarrow> st \<Rightarrow> exn option \<times> st" where
  "glass_open env path out s0 =
     (let s = log (DatabaseOpen path) s0 in
      case database_open env path of
        None \<Rightarrow> (None, s)
      | Some e \<Rightarrow>
          if is_xapian_error e
          then (None, (emit out (msg_open_failed env e) s)\<lparr>errors := errors s + 1\<rparr>)
          else (Some e, s))"

text \<open>The loop \<open>for (r = version_file.get_revision(); r != 0; --r)\<close>.\<close>

function changes_loop :: "env \<Rightarrow> string \<Rightarrow> revision \<Rightarrow> st \<Rightarrow> exn option \<times> st" where
  "changes_loop env path r s =
     (if r = 0 then (None, s)
      else
        (let changes_file = path @ ''/changes'' @ str (unat r) in
         if file_exists env changes_file
         then
           (case glass_changes_check env changes_file of
              Some e \<Rightarrow> (Some e, log (GlassChangesCheck changes_file) s)
            | None \<Rightarrow> changes_loop env path (r - 1) (log (GlassChangesCheck changes_file) s))
         else changes_loop env path (r - 1) s))"
  by pat_completeness auto
termination
proof (relation "measure (\<lambda>(env, path, r, s). unat r)")
  show "wf (measure (\<lambda>(env, path, r, s). unat r))"
    by simp
next
  fix env :: env and path :: string and r :: revision and s :: st and f :: string
  assume "r \<noteq> 0"
  then have "unat (r - 1) < unat r"
    by (simp add: unat_minus_one unat_gt_0)
  then show "((env, path, r - 1, log (GlassChangesCheck f) s), env, path, r, s)
      \<in> measure (\<lambda>(env, path, r, s). unat r)"
    by simp
next
  fix env :: env and path :: string and r :: revision and s :: st
  assume "r \<noteq> 0"
  then have "unat (r - 1) < unat r"
    by (simp add: unat_minus_one unat_gt_0)
  then show "((env, path, r - 1, s), env, path, r, s) \<in> measure (\<lambda>(env, path, r, s). unat r)"
    by simp
qed

declare changes_loop.simps [simp del]

definition glass_tables :: "string list" where
  "glass_tables =
     [''docdata'', ''termlist'', ''postlist'', ''position'', ''spelling'', ''synonym'']"

definition glass_table_step ::
  "env \<Rightarrow> string \<Rightarrow> glass_version \<Rightarrow> int \<Rightarrow> bool \<Rightarrow> docid \<Rightarrow> string \<Rightarrow> st \<Rightarrow> exn option \<times> st"
  where
  "glass_table_step env path version_file opts out db_last_docid t s =
     (let s1 = log (CheckGlassTable t path version_file opts (doclens s) db_last_docid out) s in
      case check_glass_table env t path version_file opts (doclens s) db_last_docid out of
        Inl e \<Rightarrow> (Some e, s1)
      | Inr (n, v) \<Rightarrow> (None, s1\<lparr>errors := errors s1 + n, doclens := v\<rparr>))"

fun glass_table_loop ::
  "env \<Rightarrow> string \<Rightarrow> glass_version \<Rightarrow> int \<Rightarrow> bool \<Rightarrow> docid \<Rightarrow> string list \<Rightarrow> st
    \<Rightarrow> exn option \<times> st" where
  "glass_table_loop env path version_file opts out db_last_docid [] s = (None, s)"
| "glass_table_loop env path version_file opts out db_last_docid (t # ts) s =
     (case glass_table_step env path version_file opts out db_last_docid t s of
        (Some e, s') \<Rightarrow> (Some e, s')
      | (None, s') \<Rightarrow> glass_table_loop env path version_file opts out db_last_docid ts s')"

definition check_glass_db :: "env \<Rightarrow> string \<Rightarrow> int \<Rightarrow> bool \<Rightarrow> st \<Rightarrow> exn option \<times> st" where
  "check_glass_db env path opts out s0 =
     (if \<not> has_glass_backend env
      then (Some (FeatureUnavailableError ''Glass database support isn't enabled''), s0)
      else
        (case glass_open env path out s0 of
           (Some e, s) \<Rightarrow> (Some e, s)
         | (None, s) \<Rightarrow>
             (let s1 = log (GlassVersionRead path) s in
              case glass_version_read env path of
                Inl e \<Rightarrow> (Some e, s1)
              | Inr version_file \<Rightarrow>
                  (case changes_loop env path (gv_revision version_file) s1 of
                     (Some e, s2) \<Rightarrow> (Some e, s2)
                   | (None, s2) \<Rightarrow>
                       (let db_last_docid = gv_last_docid version_file;
                            s3 = reserve_doclens env db_last_docid out s2
                        in glass_table_loop env path version_file opts out db_last_docid
                             glass_tables s3)))))"

section \<open>A single table\<close>

datatype backend = UNKNOWN | CHERT | GLASS

definition msg_flint :: string where
  "msg_flint = ''Flint database support was removed in Xapian 1.3.0''"

definition msg_brass :: string where
  "msg_brass = ''Brass database support was removed in Xapian 1.3.2''"

definition msg_quartz :: string where
  "msg_quartz = ''Quartz database support was removed in Xapian 1.1.0''"

text \<open>Trimming \<open>"."\<close>, \<open>".DB"\<close> or \<open>".glass"\<close> off the path.\<close>

definition trim_suffix :: "string \<Rightarrow> string \<times> backend" where
  "trim_suffix path =
     (if endswith_char path CHR ''.'' then (take (length path - 1) path, UNKNOWN)
      else if endswith path ''.DB'' then (take (length path - length ''.DB'') path, CHERT)
      else if endswith path ''.glass'' then (take (length path - length ''.glass'') path, GLASS)
      else (path, UNKNOWN))"

text \<open>\<open>if (backend == UNKNOWN) { ... }\<close>: the backend from the sibling files.\<close>

definition infer_backend :: "env \<Rightarrow> string \<Rightarrow> backend \<Rightarrow> exn + backend" where
  "infer_backend env filename backend =
     (if backend = UNKNOWN then
        (if stat_ok env (filename @ ''.DB'') then Inr CHERT
         else if stat_ok env (filename @ ''.glass'') then Inr GLASS
         else Inl (DatabaseError ''Not a Xapian database or database table''))
      else Inr backend)"

text \<open>\<open>p\<close> after \<open>if (p == string::npos) p = 0; else ++p;\<close>\<close>

definition split_pos :: "string \<Rightarrow> nat" where
  "split_pos filename = (case find_last_of filename CHR ''/'' of None \<Rightarrow> 0 | Some p \<Rightarrow> p + 1)"

text \<open>\<open>string dir(filename, 0, p)\<close> and the lower-cased rest, \<open>tablename\<close>.\<close>

definition dir_of :: "string \<Rightarrow> string" where
  "dir_of filename = take (split_pos filename) filename"

definition tablename_of :: "string \<Rightarrow> string" where
  "tablename_of filename = map tolower (drop (split_pos filename) filename)"

text \<open>The branch \<open>backend == GLASS\<close>.\<close>

definition check_bare_glass ::
  "env \<Rightarrow> string \<Rightarrow> string \<Rightarrow> int \<Rightarrow> bool \<Rightarrow> st \<Rightarrow> exn option \<times> st" where
  "check_bare_glass env dir tablename opts out s =
     (if \<not> has_glass_backend env
      then (Some (FeatureUnavailableError ''Glass database support isn't enabled''), s)
      else
        (let s1 = log (GlassVersionRead dir) s in
         case glass_version_read env dir of
           Inl e \<Rightarrow> (Some e, s1)
         | Inr version_file \<Rightarrow>
             (let s2 = log (CheckGlassTable tablename dir version_file opts
                              (doclens s1) (- 1) out) s1
              in
              case check_glass_table env tablename dir version_file opts
                     (doclens s1) (- 1) out of
                Inl e \<Rightarrow> (Some e, s2)
              | Inr (n, v) \<Rightarrow> (None, s2\<lparr>errors := n, doclens := v\<rparr>))))"

text \<open>The branch \<open>backend == CHERT\<close>.\<close>

definition check_bare_chert ::
  "env \<Rightarrow> string \<Rightarrow> string \<Rightarrow> string \<Rightarrow> int \<Rightarrow> bool \<Rightarrow> st \<Rightarrow> exn option \<times> st" where
  "check_bare_chert env filename dir tablename opts out s =
     (if stat_ok env (dir @ ''/iamflint'')
      then (Some (FeatureUnavailableError msg_flint), s)
      else if stat_ok env (dir @ ''/iambrass'')
      then (Some (FeatureUnavailableError msg_brass), s)
      else if \<not> has_chert_backend env
      then (Some (FeatureUnavailableError ''Chert database support isn't enabled''), s)
      else
        (let s1 = log (CheckChertTable tablename filename None opts (doclens s) (- 1) out) s
         in
         case check_chert_table env tablename filename None opts (doclens s) (- 1) out of
           Inl e \<Rightarrow> (Some e, s1)
         | Inr (n, v, r) \<Rightarrow> (None, s1\<lparr>errors := n, doclens := v\<rparr>)))"

definition check_single_table :: "env \<Rightarrow> string \<Rightarrow> int \<Rightarrow> bool \<Rightarrow> st \<Rightarrow> exn option \<times> st" where
  "check_single_table env path opts out s =
     (if stat_ok env (path @ ''/iamflint'') then (Some (FeatureUnavailableError msg_flint), s)
      else if stat_ok env (path @ ''/iambrass'') then (Some (FeatureUnavailableError msg_brass), s)
      else if stat_ok env (path @ ''/record_DB'') then (Some (FeatureUnavailableError msg_quartz), s)
      else
        (let (filename, backend0) = trim_suffix path in
         case infer_backend env filename backend0 of
           Inl e \<Rightarrow> (Some e, s)
         | Inr backend \<Rightarrow>
             (let dir = dir_of filename;
                  tablename = tablename_of filename
              in
              if backend = GLASS then check_bare_glass env dir tablename opts out s
              else if backend = CHERT then check_bare_chert env filename dir tablename opts out s
              else (None, s))))"

section \<open>\<open>Database::check\<close>\<close>

text \<open>
  \<open>check env path opts out\<close> is \<open>Database::check(path, opts, out)\<close>, \<open>out\<close> saying whether
  the stream pointer is non-null. The result is the exception thrown (\<open>Inl\<close>) or the
  error count returned (\<open>Inr\<close>), together with the trace of the run.
\<close>

definition effective_opts :: "env \<Rightarrow> int \<Rightarrow> bool \<Rightarrow> int" where
  "effective_opts env opts out = (if \<not> out then opts AND DBCHECK_FIX env else opts)"

definition finish :: "exn option \<times> st \<Rightarrow> (exn + size_t) \<times> event list" where
  "finish r = (case r of (Some e, s) \<Rightarrow> (Inl e, trace s) | (None, s) \<Rightarrow> (Inr (errors s), trace s))"

definition check :: "env \<Rightarrow> string \<Rightarrow> int \<Rightarrow> bool \<Rightarrow> (exn + size_t) \<times> event list" where
  "check env path opts0 out =
     (let opts = effective_opts env opts0 out in
      finish
        (if stat_ok env (path @ ''/iamchert'') then check_chert_db env path opts out init_st
         else if stat_ok env (path @ ''/iamglass'') then check_glass_db env path opts out init_st
         else check_single_table env path opts out init_st))"

section \<open>Observations on traces\<close>

text \<open>
  The calls of the per-table checkers found in a trace, what was passed to them, and
  what the collaborator answered. \<open>check_rev_context\<close> is the revision information handed
  to the checker: the value behind \<open>rev_ptr\<close> for chert (\<open>None\<close> for a null pointer), the
  revision of the version file for glass.
\<close>

fun is_table_check :: "event \<Rightarrow> bool" where
  "is_table_check (CheckChertTable t f r opts v l b) = True"
| "is_table_check (CheckGlassTable t f g opts v l b) = True"
| "is_table_check _ = False"

fun check_name :: "event \<Rightarrow> string" where
  "check_name (CheckChertTable t f r opts v l b) = t"
| "check_name (CheckGlassTable t f g opts v l b) = t"
| "check_name _ = []"

fun check_last_docid :: "event \<Rightarrow> docid" where
  "check_last_docid (CheckChertTable t f r opts v l b) = l"
| "check_last_docid (CheckGlassTable t f g opts v l b) = l"
| "check_last_docid _ = 0"

fun check_doclens :: "event \<Rightarrow> doclens_vec" where
  "check_doclens (CheckChertTable t f r opts v l b) = v"
| "check_doclens (CheckGlassTable t f g opts v l b) = v"
| "check_doclens _ = empty_vec"

fun check_rev_context :: "event \<Rightarrow> revision option" where
  "check_rev_context (CheckChertTable t f r opts v l b) = r"
| "check_rev_context (CheckGlassTable t f g opts v l b) = Some (gv_revision g)"
| "check_rev_context _ = None"

fun check_threw :: "env \<Rightarrow> event \<Rightarrow> bool" where
  "check_threw env (CheckChertTable t f r opts v l b) =
     (case check_chert_table env t f r opts v l b of Inl e \<Rightarrow> True | Inr x \<Rightarrow> False)"
| "check_threw env (CheckGlassTable t f g opts v l b) =
     (case check_glass_table env t f g opts v l b of Inl e \<Rightarrow> True | Inr x \<Rightarrow> False)"
| "check_threw env _ = False"

fun check_errors :: "env \<Rightarrow> event \<Rightarrow> size_t" where
  "check_errors env (CheckChertTable t f r opts v l b) =
     (case check_chert_table env t f r opts v l b of Inl e \<Rightarrow> 0 | Inr (n, v', r') \<Rightarrow> n)"
| "check_errors env (CheckGlassTable t f g opts v l b) =
     (case check_glass_table env t f g opts v l b of Inl e \<Rightarrow> 0 | Inr (n, v') \<Rightarrow> n)"
| "check_errors env _ = 0"

fun check_doclens_after :: "env \<Rightarrow> event \<Rightarrow> doclens_vec" where
  "check_doclens_after env (CheckChertTable t f r opts v l b) =
     (case check_chert_table env t f r opts v l b of Inl e \<Rightarrow> v | Inr (n, v', r') \<Rightarrow> v')"
| "check_doclens_after env (CheckGlassTable t f g opts v l b) =
     (case check_glass_table env t f g opts v l b of Inl e \<Rightarrow> v | Inr (n, v') \<Rightarrow> v')"
| "check_doclens_after env _ = empty_vec"

definition table_checks :: "event list \<Rightarrow> event list" where
  "table_checks tr = filter is_table_check tr"

definition checked_tables :: "event list \<Rightarrow> string list" where
  "checked_tables tr = map check_name (table_checks tr)"

definition table_errors :: "env \<Rightarrow> event list \<Rightarrow> size_t" where
  "table_errors env tr = sum_list (map (check_errors env) (table_checks tr))"

text \<open>
  \<open>table_errors\<close> adds the counts as the program does, in \<open>size_t\<close>. \<open>errors_found\<close> is the
  number of errors the table checks reported, as a natural number.
\<close>

definition errors_found :: "env \<Rightarrow> event list \<Rightarrow> nat" where
  "errors_found env tr = sum_list (map (\<lambda>ev. unat (check_errors env ev)) (table_checks tr))"

text \<open>
  Each call in the list receives the vector \<open>d\<close> that the call before it left behind.
\<close>

fun doclens_threaded :: "env \<Rightarrow> doclens_vec \<Rightarrow> event list \<Rightarrow> bool" where
  "doclens_threaded env d [] = True"
| "doclens_threaded env d (e # es) =
     (check_doclens e = d \<and> doclens_threaded env (check_doclens_after env e) es)"

text \<open>The vector left behind by the last call of the list.\<close>

fun doclens_end :: "env \<Rightarrow> doclens_vec \<Rightarrow> event list \<Rightarrow> doclens_vec" where
  "doclens_end env d [] = d"
| "doclens_end env d (e # es) = doclens_end env (check_doclens_after env e) es"

text \<open>The call that the chert loop makes for table \<open>t\<close> in state \<open>s\<close>.\<close>

definition chert_call :: "string \<Rightarrow> int \<Rightarrow> bool \<Rightarrow> docid \<Rightarrow> string \<Rightarrow> st \<Rightarrow> event" where
  "chert_call path opts out l t s =
     CheckChertTable t (path @ ''/'' @ t) (Some (rev_num s)) opts (doclens s) l out"

text \<open>The call that the glass loop makes for table \<open>t\<close> in state \<open>s\<close>.\<close>

definition glass_call ::
  "string \<Rightarrow> glass_version \<Rightarrow> int \<Rightarrow> bool \<Rightarrow> docid \<Rightarrow> string \<Rightarrow> st \<Rightarrow> event" where
  "glass_call path version_file opts out l t s =
     CheckGlassTable t path version_file opts (doclens s) l out"

text \<open>
  The names \<open>path/changes<k>\<close> for \<open>k\<close> from \<open>n\<close> down to \<open>1\<close>, and the part of a list of
  changes files that gets checked when the checker may throw: everything up to and
  including the first file on which it does.
\<close>

definition changes_files :: "string \<Rightarrow> nat \<Rightarrow> string list" where
  "changes_files path n = map (\<lambda>k. path @ ''/changes'' @ str k) (rev [1..<Suc n])"

fun until_throw :: "env \<Rightarrow> string list \<Rightarrow> string list" where
  "until_throw env [] = []"
| "until_throw env (f # fs) =
     f # (if glass_changes_check env f = None then until_throw env fs else [])"

text \<open>The tables of a chert directory that the loop hands to the checker.\<close>

definition present :: "env \<Rightarrow> string \<Rightarrow> string \<Rightarrow> bool" where
  "present env path t =
     (t = ''record'' \<or> t = ''postlist'' \<or> file_exists env (path @ ''/'' @ t @ ''.DB''))"

fun is_reserve_call :: "event \<Rightarrow> bool" where
  "is_reserve_call (CallReserveDoclens l) = True"
| "is_reserve_call _ = False"

fun is_changes_check :: "event \<Rightarrow> bool" where
  "is_changes_check (GlassChangesCheck f) = True"
| "is_changes_check _ = False"

fun is_out :: "event \<Rightarrow> bool" where
  "is_out (Out m) = True"
| "is_out _ = False"

fun is_repair :: "event \<Rightarrow> bool" where
  "is_repair (ChertVersionReadAndCheck p) = True"
| "is_repair (ChertVersionCreate p) = True"
| "is_repair _ = False"

section \<open>Concrete environments\<close>

text \<open>
  A healthy world with no files: every collaborator succeeds, the table checkers find
  nothing and leave the vector and the revision as they are (\<open>0\<close> through a null pointer).
  The other environments change one or two fields of it.
\<close>

definition env0 :: env where
  "env0 =
     \<lparr>stat_ok = (\<lambda>p. False),
      file_exists = (\<lambda>p. False),
      has_chert_backend = True,
      has_glass_backend = True,
      DBCHECK_FIX = 16,
      max_size = 2 ^ 61,
      allocate = (\<lambda>n. True),
      get_description = (\<lambda>e. ''Error''),
      chert_database_open = (\<lambda>p. Inr (5, 7)),
      database_open = (\<lambda>p. None),
      glass_version_read = (\<lambda>p. Inr \<lparr>gv_revision = 3, gv_last_docid = 5\<rparr>),
      glass_changes_check = (\<lambda>f. None),
      check_chert_table =
        (\<lambda>t f r opts v l b. Inr (0, v, case r of None \<Rightarrow> 0 | Some x \<Rightarrow> x)),
      check_glass_table = (\<lambda>t f g opts v l b. Inr (0, v)),
      chert_version_read_and_check = (\<lambda>p. None),
      chert_version_create = (\<lambda>p. None)\<rparr>"

text \<open>
  A chert directory \<open>db\<close> with a termlist table and none of the lazily created ones. The
  termlist check stores three document lengths.
\<close>

definition env_chert :: env where
  "env_chert =
     env0\<lparr>stat_ok := (\<lambda>p. p = ''db/iamchert''),
          file_exists := (\<lambda>p. p = ''db/termlist.DB''),
          check_chert_table :=
            (\<lambda>t f r opts v l b.
               Inr (0, if t = ''termlist'' then v\<lparr>elems := [0, 3, 4]\<rparr> else v,
                    case r of None \<Rightarrow> 0 | Some x \<Rightarrow> x))\<rparr>"

text \<open>A chert directory \<open>db\<close> with the two mandatory tables only.\<close>

definition env_chert_bare :: env where
  "env_chert_bare = env0\<lparr>stat_ok := (\<lambda>p. p = ''db/iamchert'')\<rparr>"

text \<open>
  The same directory when the database cannot be opened, and when in addition the
  version file is damaged.
\<close>

definition env_open_fails :: env where
  "env_open_fails =
     env_chert_bare\<lparr>chert_database_open := (\<lambda>p. Inl (DatabaseError ''cannot open''))\<rparr>"

definition env_bad_version :: env where
  "env_bad_version =
     env_open_fails\<lparr>chert_version_read_and_check :=
       (\<lambda>p. Some (DatabaseError ''bad version file''))\<rparr>"

text \<open>The same directory with two errors in the postlist table.\<close>

definition env_postlist_errors :: env where
  "env_postlist_errors =
     env_chert_bare\<lparr>check_chert_table :=
       (\<lambda>t f r opts v l b.
          Inr (if t = ''postlist'' then 2 else 0, v, case r of None \<Rightarrow> 0 | Some x \<Rightarrow> x))\<rparr>"

text \<open>
  A glass directory \<open>db\<close> at revision 3 whose changes file for revision 2 has been
  pruned; the same directory when it cannot be opened; and when in addition the version
  file cannot be read.
\<close>

definition env_glass :: env where
  "env_glass =
     env0\<lparr>stat_ok := (\<lambda>p. p = ''db/iamglass''),
          file_exists := (\<lambda>p. p = ''db/changes3'' \<or> p = ''db/changes1'')\<rparr>"

definition env_glass_open_fails :: env where
  "env_glass_open_fails =
     env_glass\<lparr>database_open := (\<lambda>p. Some (DatabaseError ''cannot open''))\<rparr>"

definition env_glass_no_version :: env where
  "env_glass_no_version =
     env_glass_open_fails\<lparr>glass_version_read :=
       (\<lambda>p. Inl (DatabaseError ''no version file''))\<rparr>"

text \<open>
  Single tables: a directory \<open>db\<close> holding both \<open>Postlist.DB\<close> and \<open>Postlist.glass\<close>, one
  holding only the latter, and a flint database in the current directory, whose files
  are named relative to it (there is no \<open>/iamflint\<close> in the root directory).
\<close>

definition env_both_suffixes :: env where
  "env_both_suffixes =
     env0\<lparr>stat_ok := (\<lambda>p. p = ''db/Postlist.DB'' \<or> p = ''db/Postlist.glass'')\<rparr>"

definition env_glass_suffix :: env where
  "env_glass_suffix = env0\<lparr>stat_ok := (\<lambda>p. p = ''db/Postlist.glass'')\<rparr>"

definition env_flint_cwd :: env where
  "env_flint_cwd =
     env0\<lparr>stat_ok := (\<lambda>p. p \<in> set [''iamflint'', ''./iamflint'', ''postlist.DB'',
                                   ''./postlist.DB'', ''record.DB'', ''./record.DB''])\<rparr>"

text \<open>
  The directory of \<open>env_chert_bare\<close> when the record check reports \<open>SIZE_MAX\<close> errors and
  the postlist check one more.
\<close>

definition env_count_wraps :: env where
  "env_count_wraps =
     env_chert_bare\<lparr>check_chert_table :=
       (\<lambda>t f r opts v l b.
          Inr (if t = ''record'' then - 1 else if t = ''postlist'' then 1 else 0, v,
               case r of None \<Rightarrow> 0 | Some x \<Rightarrow> x))\<rparr>"

text \<open>
  The same when the chert database cannot be opened either, and a glass directory that
  cannot be opened and whose docdata check reports \<open>SIZE_MAX\<close> errors.
\<close>

definition env_open_fails_count_wraps :: env where
  "env_open_fails_count_wraps =
     env_count_wraps\<lparr>chert_database_open := (\<lambda>p. Inl (DatabaseError ''cannot open''))\<rparr>"

definition env_glass_count_wraps :: env where
  "env_glass_count_wraps =
     env_glass_open_fails\<lparr>check_glass_table :=
       (\<lambda>t f g opts v l b. Inr (if t = ''docdata'' then - 1 else 0, v))\<rparr>"

definition env_no_memory :: env where
  "env_no_memory = env0\<lparr>allocate := (\<lambda>n. False)\<rparr>"

definition env_small_vector :: env where
  "env_small_vector = env0\<lparr>max_size := 3\<rparr>"

section \<open>Basic facts\<close>

lemma log_simps [simp]:
  "trace (log e s) = trace s @ [e]"
  "doclens (log e s) = doclens s"
  "errors (log e s) = errors s"
  "rev_num (log e s) = rev_num s"
  by (simp_all add: log_def)

lemma emit_simps [simp]:
  "trace (emit out m s) = trace s @ (if out then [Out m] else [])"
  "doclens (emit out m s) = doclens s"
  "errors (emit out m s) = errors s"
  "rev_num (emit out m s) = rev_num s"
  by (simp_all add: emit_def)

lemma init_st_simps [simp]:
  "trace init_st = []"
  "doclens init_st = empty_vec"
  "errors init_st = 0"
  "rev_num init_st = 0"
  by (simp_all add: init_st_def)

section \<open>The bounded reservation\<close>

lemma unat_succ_below:
  fixes d :: docid
  assumes "unat d < 2 ^ 28"
  shows "unat (d + 1) = unat d + 1"
proof -
  have "unat (d + 1) = (unat d + 1) mod 2 ^ 32"
    by (simp add: unat_word_ariths)
  also have "\<dots> = unat d + 1"
    using assms by simp
  finally show ?thesis .
qed

lemma threshold_iff:
  "(2 ^ 30 \<le> unat (d :: docid) * sizeof_termcount) =
     (0x40000000 div sizeof_termcount \<le> unat d)"
  by (simp add: sizeof_termcount_def)

lemma msgs_distinct:
  "msg_too_large \<noteq> msg_bad_alloc"
  "msg_too_large \<noteq> msg_length_error"
  "msg_bad_alloc \<noteq> msg_length_error"
  by (simp_all add: msg_too_large_def msg_bad_alloc_def msg_length_error_def)

text \<open>
  C1. \<open>reserve_doclens\<close> compares \<open>last_docid\<close> with \<open>0x40000000 / sizeof(termcount)\<close>,
  which is the same as asking whether \<open>last_docid * sizeof(termcount)\<close> reaches
  \<open>2^30\<close> bytes. At or above the threshold it leaves the vector alone and attempts no
  reservation (the trace gains the call and, with a sink, the message, but no
  \<open>Reserve\<close>). Below it, \<open>last_docid + 1\<close> does not wrap and a reservation of that many
  elements is attempted: when it succeeds the capacity is at least \<open>last_docid + 1\<close> and
  nothing is written; when it throws \<open>bad_alloc\<close> or \<open>length_error\<close> the vector is left
  as it was and, with a sink, the message of that cause is written. The three messages
  differ, and the error count is never changed.
\<close>

theorem reserve_doclens_bounded:
  "(let s' = reserve_doclens env last_docid out s;
        n = unat last_docid + 1;
        called = trace s @ [CallReserveDoclens last_docid]
    in
    ((2 ^ 30 \<le> unat last_docid * sizeof_termcount) =
       (0x40000000 div sizeof_termcount \<le> unat last_docid)) \<and>
    (2 ^ 30 \<le> unat last_docid * sizeof_termcount \<longrightarrow>
       doclens s' = doclens s \<and>
       trace s' = called @ (if out then [Out msg_too_large] else [])) \<and>
    (unat last_docid * sizeof_termcount < 2 ^ 30 \<longrightarrow>
       unat (last_docid + 1) = n \<and>
       (case vector_reserve env n (doclens s) of
          Inr v \<Rightarrow> doclens s' = v \<and> n \<le> capacity v \<and> trace s' = called @ [Reserve n]
        | Inl BadAlloc \<Rightarrow>
            doclens s' = doclens s \<and>
            trace s' = called @ [Reserve n] @ (if out then [Out msg_bad_alloc] else [])
        | Inl LengthError \<Rightarrow>
            doclens s' = doclens s \<and>
            trace s' = called @ [Reserve n] @ (if out then [Out msg_length_error] else []))) \<and>
    errors s' = errors s \<and> rev_num s' = rev_num s \<and>
    msg_too_large \<noteq> msg_bad_alloc \<and> msg_too_large \<noteq> msg_length_error \<and>
    msg_bad_alloc \<noteq> msg_length_error)"
proof -
  have small: "unat (last_docid + 1) = unat last_docid + 1"
    if "unat last_docid * sizeof_termcount < 2 ^ 30"
    using that by (intro unat_succ_below) (simp add: sizeof_termcount_def)
  have cap: "unat last_docid + 1 \<le> capacity v"
    if "vector_reserve env (unat last_docid + 1) (doclens s) = Inr v" for v
    using that by (auto simp: vector_reserve_def split: if_splits)
  show ?thesis
    unfolding Let_def
    apply (intro conjI impI)
    subgoal by (rule threshold_iff)
    subgoal by (simp add: reserve_doclens_def Let_def sizeof_termcount_def)
    subgoal by (simp add: reserve_doclens_def Let_def sizeof_termcount_def)
    subgoal by (rule small)
    subgoal
      using small cap
      by (auto simp: reserve_doclens_def sizeof_termcount_def Let_def
          split: sum.splits alloc_failure.splits)
    subgoal
      by (auto simp: reserve_doclens_def Let_def split: sum.splits alloc_failure.splits)
    subgoal
      by (auto simp: reserve_doclens_def Let_def split: sum.splits alloc_failure.splits)
    subgoal by (rule msgs_distinct)
    subgoal by (rule msgs_distinct)
    subgoal by (rule msgs_distinct)
    done
qed

theorem reserve_doclens_bounded_witness:
  "6 \<le> capacity (doclens (reserve_doclens env0 5 False init_st)) \<and>
   trace (reserve_doclens env0 5 False init_st) = [CallReserveDoclens 5, Reserve 6] \<and>
   trace (reserve_doclens env0 0x10000000 True init_st) =
     [CallReserveDoclens 0x10000000, Out msg_too_large] \<and>
   doclens (reserve_doclens env0 0x10000000 True init_st) = empty_vec \<and>
   trace (reserve_doclens env_no_memory 5 True init_st) =
     [CallReserveDoclens 5, Reserve 6, Out msg_bad_alloc] \<and>
   trace (reserve_doclens env_small_vector 5 True init_st) =
     [CallReserveDoclens 5, Reserve 6, Out msg_length_error]"
  using reserve_doclens_bounded [of env0 5 False init_st]
    reserve_doclens_bounded [of env0 "0x10000000" True init_st]
    reserve_doclens_bounded [of env_no_memory 5 True init_st]
    reserve_doclens_bounded [of env_small_vector 5 True init_st]
  by (simp add: Let_def sizeof_termcount_def vector_reserve_def env0_def env_no_memory_def
      env_small_vector_def empty_vec_def)

section \<open>The loop over the chert tables\<close>

lemma present_iff:
  "(t \<noteq> ''record'' \<and> t \<noteq> ''postlist'' \<and> \<not> file_exists env ((path @ ''/'' @ t) @ ''.DB'')) =
     (\<not> present env path t)"
  unfolding present_def by simp

lemma chert_table_step_absent:
  assumes "\<not> present env path t"
  shows "chert_table_step env path opts out l t s =
     (None, emit out (msg_absent t) (emit out (t @ '':'' @ nl) s))"
  unfolding chert_table_step_def Let_def present_iff using assms by simp

lemma chert_table_step_present:
  assumes "present env path t"
  shows "chert_table_step env path opts out l t s =
     (let s0 = emit out (t @ '':'' @ nl) s;
          s1 = log (chert_call path opts out l t s) s0
      in case check_chert_table env t (path @ ''/'' @ t) (Some (rev_num s)) opts (doclens s) l out of
           Inl e \<Rightarrow> (Some e, s1)
         | Inr (n, v, r) \<Rightarrow> (None, s1\<lparr>errors := errors s + n, doclens := v, rev_num := r\<rparr>))"
  unfolding chert_table_step_def Let_def present_iff chert_call_def using assms
  by (simp split: sum.split prod.split)

lemma table_checks_simps [simp]:
  "table_checks [] = []"
  "table_checks (e # es) = (if is_table_check e then e # table_checks es else table_checks es)"
  "table_checks (a @ b) = table_checks a @ table_checks b"
  by (simp_all add: table_checks_def)

lemma checked_tables_simps [simp]:
  "checked_tables [] = []"
  "checked_tables (e # es) =
     (if is_table_check e then check_name e # checked_tables es else checked_tables es)"
  "checked_tables (a @ b) = checked_tables a @ checked_tables b"
  by (simp_all add: checked_tables_def)

lemma table_errors_simps [simp]:
  "table_errors env [] = 0"
  "table_errors env (e # es) =
     (if is_table_check e then check_errors env e + table_errors env es else table_errors env es)"
  "table_errors env (a @ b) = table_errors env a + table_errors env b"
  by (simp_all add: table_errors_def)

lemma chert_call_simps [simp]:
  "is_table_check (chert_call path opts out l t s)"
  "check_name (chert_call path opts out l t s) = t"
  "check_last_docid (chert_call path opts out l t s) = l"
  "check_doclens (chert_call path opts out l t s) = doclens s"
  "check_rev_context (chert_call path opts out l t s) = Some (rev_num s)"
  "\<not> is_reserve_call (chert_call path opts out l t s)"
  "\<not> is_out (chert_call path opts out l t s)"
  "\<not> is_repair (chert_call path opts out l t s)"
  "\<not> is_changes_check (chert_call path opts out l t s)"
  by (simp_all add: chert_call_def)

lemma chert_step_trace:
  "trace (snd (chert_table_step env path opts out l t s)) =
     trace s @ (if out then [Out (t @ '':'' @ nl)] else []) @
     (if present env path t then [chert_call path opts out l t s]
      else if out then [Out (msg_absent t)] else [])"
proof (cases "present env path t")
  case True
  then show ?thesis
    by (simp add: chert_table_step_present Let_def split: sum.split prod.split)
next
  case False
  then show ?thesis
    by (simp add: chert_table_step_absent)
qed

lemma chert_step_fst:
  "(fst (chert_table_step env path opts out l t s) = None) =
     (\<not> (present env path t \<and> check_threw env (chert_call path opts out l t s)))"
proof (cases "present env path t")
  case True
  then show ?thesis
    by (simp add: chert_table_step_present Let_def chert_call_def split: sum.split prod.split)
next
  case False
  then show ?thesis
    by (simp add: chert_table_step_absent)
qed

lemma chert_step_errors:
  "errors (snd (chert_table_step env path opts out l t s)) =
     errors s + (if present env path t then check_errors env (chert_call path opts out l t s) else 0)"
proof (cases "present env path t")
  case True
  then show ?thesis
    by (simp add: chert_table_step_present Let_def chert_call_def split: sum.split prod.split)
next
  case False
  then show ?thesis
    by (simp add: chert_table_step_absent)
qed

lemma chert_step_doclens:
  "doclens (snd (chert_table_step env path opts out l t s)) =
     (if present env path t then check_doclens_after env (chert_call path opts out l t s)
      else doclens s)"
proof (cases "present env path t")
  case True
  then show ?thesis
    by (simp add: chert_table_step_present Let_def chert_call_def split: sum.split prod.split)
next
  case False
  then show ?thesis
    by (simp add: chert_table_step_absent)
qed

lemma chert_loop_Cons:
  "chert_table_loop env path opts out l (t # ts) s =
     (if fst (chert_table_step env path opts out l t s) = None
      then chert_table_loop env path opts out l ts (snd (chert_table_step env path opts out l t s))
      else chert_table_step env path opts out l t s)"
  by (simp split: prod.split option.split)

lemma chert_loop_names:
  "\<exists>V. checked_tables (trace (snd (chert_table_loop env path opts out l ts s))) =
          checked_tables (trace s) @ V \<and>
       prefix V (filter (present env path) ts) \<and>
       (fst (chert_table_loop env path opts out l ts s) = None \<longrightarrow>
          V = filter (present env path) ts)"
proof (induction ts arbitrary: s)
  case Nil
  then show ?case by simp
next
  case (Cons t ts)
  let ?step = "chert_table_step env path opts out l t s"
  have tr: "checked_tables (trace (snd ?step)) =
      checked_tables (trace s) @ (if present env path t then [t] else [])"
    by (simp add: chert_step_trace)
  show ?case
  proof (cases "fst ?step = None")
    case True
    from Cons.IH [of "snd ?step"] obtain V where
      "checked_tables (trace (snd (chert_table_loop env path opts out l ts (snd ?step)))) =
            checked_tables (trace (snd ?step)) @ V \<and>
        prefix V (filter (present env path) ts) \<and>
        (fst (chert_table_loop env path opts out l ts (snd ?step)) = None \<longrightarrow>
           V = filter (present env path) ts)" ..
    then have V: "checked_tables (trace (snd (chert_table_loop env path opts out l ts (snd ?step)))) =
            checked_tables (trace (snd ?step)) @ V"
        "prefix V (filter (present env path) ts)"
        "fst (chert_table_loop env path opts out l ts (snd ?step)) = None \<longrightarrow>
           V = filter (present env path) ts"
      by simp_all
    show ?thesis
      by (rule exI [of _ "(if present env path t then [t] else []) @ V"])
        (use True tr V in \<open>simp add: chert_loop_Cons del: chert_table_loop.simps\<close>)
  next
    case False
    then have p: "present env path t"
      by (simp add: chert_step_fst)
    from False have stop: "(fst ?step = None) = False"
      by simp
    show ?thesis
      by (intro exI [of _ "[t]"])
        (simp add: chert_loop_Cons stop tr p del: chert_table_loop.simps)
  qed
qed


lemma chert_loop_invariant:
  assumes "I s"
    and "\<And>t s. t \<in> set ts \<Longrightarrow> I s \<Longrightarrow> I (snd (chert_table_step env path opts out l t s))"
  shows "I (snd (chert_table_loop env path opts out l ts s))"
  using assms
proof (induction ts arbitrary: s)
  case Nil
  then show ?case by simp
next
  case (Cons t ts)
  let ?step = "chert_table_step env path opts out l t s"
  have step: "I (snd ?step)"
    using Cons.prems by simp
  show ?case
  proof (cases "fst ?step = None")
    case True
    have "I (snd (chert_table_loop env path opts out l ts (snd ?step)))"
      using step Cons.prems(2) by (intro Cons.IH) simp_all
    then show ?thesis
      using True by (simp add: chert_loop_Cons del: chert_table_loop.simps)
  next
    case False
    then have stop: "(fst ?step = None) = False"
      by simp
    show ?thesis
      using step by (simp add: chert_loop_Cons stop del: chert_table_loop.simps)
  qed
qed

lemma doclens_end_snoc:
  "doclens_end env d (xs @ [e]) = check_doclens_after env e"
  by (induction xs arbitrary: d) simp_all

lemma doclens_threaded_snoc:
  "doclens_threaded env d (xs @ [e]) =
     (doclens_threaded env d xs \<and> check_doclens e = doclens_end env d xs)"
  by (induction xs arbitrary: d) auto

lemma chert_loop_doclens:
  assumes "doclens_threaded env d (table_checks (trace s))"
    and "doclens s = doclens_end env d (table_checks (trace s))"
  shows "doclens_threaded env d
           (table_checks (trace (snd (chert_table_loop env path opts out l ts s))))"
proof -
  let ?I = "\<lambda>s::st. doclens_threaded env d (table_checks (trace s)) \<and>
                doclens s = doclens_end env d (table_checks (trace s))"
  have "?I (snd (chert_table_loop env path opts out l ts s))"
  proof (rule chert_loop_invariant)
    show "?I s"
      using assms by simp
  next
    fix t and s :: st
    assume "?I s"
    then show "?I (snd (chert_table_step env path opts out l t s))"
      by (simp add: chert_step_trace chert_step_doclens doclens_threaded_snoc doclens_end_snoc)
  qed
  then show ?thesis
    by simp
qed

lemma chert_loop_last_docid:
  assumes "\<forall>e\<in>set (table_checks (trace s)). check_last_docid e = l"
  shows "\<forall>e\<in>set (table_checks (trace (snd (chert_table_loop env path opts out l ts s)))).
           check_last_docid e = l"
  by (rule chert_loop_invariant) (use assms in \<open>simp_all add: chert_step_trace\<close>)

lemma chert_loop_errors:
  "errors (snd (chert_table_loop env path opts out l ts s)) + table_errors env (trace s) =
     errors s + table_errors env (trace (snd (chert_table_loop env path opts out l ts s)))"
proof -
  let ?I = "\<lambda>s'::st. errors s' + table_errors env (trace s) = errors s + table_errors env (trace s')"
  have "?I (snd (chert_table_loop env path opts out l ts s))"
    by (rule chert_loop_invariant) (simp_all add: chert_step_trace chert_step_errors)
  then show ?thesis .
qed

lemma chert_loop_filter:
  assumes "\<And>e. is_table_check e \<Longrightarrow> \<not> P e" and "\<And>m. \<not> P (Out m)"
  shows "filter P (trace (snd (chert_table_loop env path opts out l ts s))) = filter P (trace s)"
proof -
  have call: "\<not> P (chert_call path opts out l t s)" for t s
    by (rule assms(1)) simp
  let ?I = "\<lambda>s'::st. filter P (trace s') = filter P (trace s)"
  have "?I (snd (chert_table_loop env path opts out l ts s))"
    by (rule chert_loop_invariant) (simp_all add: chert_step_trace assms(2) call)
  then show ?thesis .
qed

lemma chert_loop_prefix:
  "prefix (trace s) (trace (snd (chert_table_loop env path opts out l ts s)))"
proof -
  let ?I = "\<lambda>s'::st. prefix (trace s) (trace s')"
  have "?I (snd (chert_table_loop env path opts out l ts s))"
    by (rule chert_loop_invariant) (simp_all add: chert_step_trace)
  then show ?thesis .
qed

lemma chert_loop_threw:
  assumes "\<forall>e\<in>set (table_checks (trace s)). \<not> check_threw env e"
  shows "(fst (chert_table_loop env path opts out l ts s) = None) =
     (\<forall>e\<in>set (table_checks (trace (snd (chert_table_loop env path opts out l ts s)))).
        \<not> check_threw env e)"
  using assms
proof (induction ts arbitrary: s)
  case Nil
  then show ?case by simp
next
  case (Cons t ts)
  let ?step = "chert_table_step env path opts out l t s"
  show ?case
  proof (cases "fst ?step = None")
    case True
    then have "\<forall>e\<in>set (table_checks (trace (snd ?step))). \<not> check_threw env e"
      using Cons.prems by (auto simp: chert_step_trace chert_step_fst)
    from Cons.IH [OF this] show ?thesis
      using True by (simp add: chert_loop_Cons del: chert_table_loop.simps)
  next
    case False
    then have stop: "(fst ?step = None) = False"
      by simp
    from False have "present env path t \<and> check_threw env (chert_call path opts out l t s)"
      by (simp add: chert_step_fst)
    then show ?thesis
      by (simp add: chert_loop_Cons stop chert_step_trace del: chert_table_loop.simps)
  qed
qed

section \<open>The structure of a whole-database chert check\<close>

lemma reserve_doclens_filter:
  assumes "\<not> P (CallReserveDoclens l)" and "\<And>n. \<not> P (Reserve n)" and "\<And>m. \<not> P (Out m)"
  shows "filter P (trace (reserve_doclens env l out s)) = filter P (trace s)"
  using assms
  by (simp add: reserve_doclens_def Let_def split: sum.split alloc_failure.split)

lemma reserve_doclens_calls:
  "filter is_reserve_call (trace (reserve_doclens env l out s)) =
     filter is_reserve_call (trace s) @ [CallReserveDoclens l]"
  by (simp add: reserve_doclens_def Let_def split: sum.split alloc_failure.split)

lemma reserve_doclens_quiet:
  "\<not> out \<Longrightarrow> filter is_out (trace (reserve_doclens env l out s)) = filter is_out (trace s)"
  by (simp add: reserve_doclens_def Let_def split: sum.split alloc_failure.split)

lemma reserve_doclens_prefix:
  "prefix (trace s) (trace (reserve_doclens env l out s))"
  by (simp add: reserve_doclens_def Let_def split: sum.split alloc_failure.split)

lemma reserve_doclens_frame [simp]:
  "errors (reserve_doclens env l out s) = errors s"
  "rev_num (reserve_doclens env l out s) = rev_num s"
  by (simp_all add: reserve_doclens_def Let_def split: sum.split alloc_failure.split)

lemma reserve_doclens_vec:
  "doclens (reserve_doclens env l out s) =
     (if 0x40000000 div sizeof_termcount \<le> unat l then doclens s
      else case vector_reserve env (unat (l + 1)) (doclens s) of
             Inr v \<Rightarrow> v | Inl f \<Rightarrow> doclens s)"
  by (simp add: reserve_doclens_def Let_def split: sum.split alloc_failure.split)

lemma chert_open_cases [case_names foreign failed opened]:
  obtains
    (foreign) e where "chert_database_open env path = Inl e" and "\<not> is_xapian_error e"
      and "chert_open env path out s0 = (Some e, log (ChertDatabaseOpen path) s0, - 1)"
  | (failed) e where "chert_database_open env path = Inl e" and "is_xapian_error e"
      and "chert_open env path out s0 =
        (None, (emit out (msg_open_failed env e) (log (ChertDatabaseOpen path) s0))
                 \<lparr>errors := errors s0 + 1\<rparr>, - 1)"
  | (opened) l r where "chert_database_open env path = Inr (l, r)"
      and "chert_open env path out s0 =
        (None, (reserve_doclens env l out (log (ChertDatabaseOpen path) s0))\<lparr>rev_num := r\<rparr>, l)"
proof (cases "chert_database_open env path")
  case (Inl e)
  show ?thesis
  proof (cases "is_xapian_error e")
    case True
    with Inl show ?thesis
      by (intro failed [of e]) (simp_all add: chert_open_def Let_def)
  next
    case False
    with Inl show ?thesis
      by (intro foreign [of e]) (simp_all add: chert_open_def Let_def)
  qed
next
  case (Inr x)
  obtain l r where "x = (l, r)"
    by (cases x)
  with Inr show ?thesis
    by (intro opened [of l r]) (simp_all add: chert_open_def Let_def)
qed

lemma chert_version_repair_trace:
  "trace (snd (chert_version_repair env path s)) =
     trace s @ ChertVersionReadAndCheck path #
       (case chert_version_read_and_check env path of
          None \<Rightarrow> []
        | Some e \<Rightarrow> if is_database_error e then [ChertVersionCreate path] else [])"
  by (simp add: chert_version_repair_def Let_def split: option.split)

lemma chert_version_repair_errors [simp]:
  "errors (snd (chert_version_repair env path s)) = errors s"
  by (simp add: chert_version_repair_def Let_def split: option.split)

lemma finish_simps [simp]:
  "finish (None, s) = (Inr (errors s), trace s)"
  "finish (Some e, s) = (Inl e, trace s)"
  by (simp_all add: finish_def)

lemma snd_finish [simp]: "snd (finish r) = trace (snd r)"
  by (cases r) (simp add: finish_def split: option.split)

lemma fst_finish:
  "fst (finish r) = (case fst r of None \<Rightarrow> Inr (errors (snd r)) | Some e \<Rightarrow> Inl e)"
  by (cases r) (simp add: finish_def split: option.split)

lemma effective_opts_fix [simp]:
  "effective_opts env opts out AND DBCHECK_FIX env = opts AND DBCHECK_FIX env"
  by (simp add: effective_opts_def and.assoc)

lemma chert_check_cases [consumes 2, case_names open_throws table_throws no_repair repair]:
  assumes "stat_ok env (path @ ''/iamchert'')" and "has_chert_backend env"
  obtains
    (open_throws) e s1 l where "chert_open env path out init_st = (Some e, s1, l)"
      and "check env path opts0 out = (Inl e, trace s1)"
  | (table_throws) s1 l e s2 where "chert_open env path out init_st = (None, s1, l)"
      and "chert_table_loop env path (effective_opts env opts0 out) out l chert_tables s1 =
             (Some e, s2)"
      and "check env path opts0 out = (Inl e, trace s2)"
  | (no_repair) s1 l s2 where "chert_open env path out init_st = (None, s1, l)"
      and "chert_table_loop env path (effective_opts env opts0 out) out l chert_tables s1 =
             (None, s2)"
      and "\<not> (errors s2 = errors s1 \<and> opts0 AND DBCHECK_FIX env \<noteq> 0)"
      and "check env path opts0 out = (Inr (errors s2), trace s2)"
  | (repair) s1 l s2 where "chert_open env path out init_st = (None, s1, l)"
      and "chert_table_loop env path (effective_opts env opts0 out) out l chert_tables s1 =
             (None, s2)"
      and "errors s2 = errors s1" and "opts0 AND DBCHECK_FIX env \<noteq> 0"
      and "check env path opts0 out = finish (chert_version_repair env path s2)"
proof -
  let ?opts = "effective_opts env opts0 out"
  have chk: "check env path opts0 out = finish (check_chert_db env path ?opts out init_st)"
    using assms by (simp add: check_def Let_def)
  obtain r1 s1 l where op: "chert_open env path out init_st = (r1, s1, l)"
    by (cases "chert_open env path out init_st")
  show ?thesis
  proof (cases r1)
    case (Some e)
    with op chk assms(2) show ?thesis
      by (intro open_throws [of e s1 l]) (simp_all add: check_chert_db_def)
  next
    case None
    note r1 = this
    obtain r2 s2 where lp: "chert_table_loop env path ?opts out l chert_tables s1 = (r2, s2)"
      by (cases "chert_table_loop env path ?opts out l chert_tables s1")
    show ?thesis
    proof (cases r2)
      case (Some e)
      with op r1 lp chk assms(2) show ?thesis
        by (intro table_throws [of s1 l e s2]) (simp_all add: check_chert_db_def)
    next
      case None
      show ?thesis
      proof (cases "errors s2 = errors s1 \<and> opts0 AND DBCHECK_FIX env \<noteq> 0")
        case True
        with op r1 lp None chk assms(2) show ?thesis
          by (intro repair [of s1 l s2]) (simp_all add: check_chert_db_def)
      next
        case False
        with op r1 lp None chk assms(2) show ?thesis
          by (intro no_repair [of s1 l s2]) (auto simp add: check_chert_db_def)
      qed
    qed
  qed
qed

section \<open>Concrete runs\<close>

lemmas run_defs =
  check_def check_chert_db_def chert_open_def chert_table_step_def chert_version_repair_def
  check_glass_db_def glass_open_def glass_table_step_def check_single_table_def
  check_bare_glass_def check_bare_chert_def reserve_doclens_def vector_reserve_def
  effective_opts_def finish_def init_st_def log_def emit_def chert_tables_def glass_tables_def
  sizeof_termcount_def empty_vec_def Let_def

lemma env_chert_run:
  "check env_chert ''db'' 0 False =
     (Inr 0,
      [ChertDatabaseOpen ''db'', CallReserveDoclens 5, Reserve 6,
       CheckChertTable ''record'' ''db/record'' (Some 7) 0 \<lparr>elems = [], capacity = 6\<rparr> 5 False,
       CheckChertTable ''termlist'' ''db/termlist'' (Some 7) 0
         \<lparr>elems = [], capacity = 6\<rparr> 5 False,
       CheckChertTable ''postlist'' ''db/postlist'' (Some 7) 0
         \<lparr>elems = [0, 3, 4], capacity = 6\<rparr> 5 False])"
  by (simp add: run_defs env_chert_def env0_def)

section \<open>The order of the table checks\<close>

lemma chert_open_state:
  assumes "chert_open env path out init_st = (r, s1, l)"
  shows "table_checks (trace s1) = []"
    and "filter is_repair (trace s1) = []"
    and "filter is_changes_check (trace s1) = []"
    and "doclens s1 =
      (case chert_database_open env path of
         Inl e \<Rightarrow> empty_vec
       | Inr (l, r) \<Rightarrow> doclens (reserve_doclens env l out init_st))"
    and "errors s1 = (case chert_database_open env path of Inl e \<Rightarrow> 1 | Inr x \<Rightarrow> 0)
           \<or> r \<noteq> None"
proof -
  have tc: "table_checks (trace (reserve_doclens env l' out s)) = table_checks (trace s)"
    for l' s
    unfolding table_checks_def by (rule reserve_doclens_filter) simp_all
  have rp: "filter is_repair (trace (reserve_doclens env l' out s)) = filter is_repair (trace s)"
    for l' s
    by (rule reserve_doclens_filter) simp_all
  have cc: "filter is_changes_check (trace (reserve_doclens env l' out s)) =
      filter is_changes_check (trace s)" for l' s
    by (rule reserve_doclens_filter) simp_all
  show "table_checks (trace s1) = []"
    using assms by (cases rule: chert_open_cases [of env path out init_st]) (auto simp: tc)
  show "filter is_repair (trace s1) = []"
    using assms by (cases rule: chert_open_cases [of env path out init_st]) (auto simp: rp)
  show "filter is_changes_check (trace s1) = []"
    using assms by (cases rule: chert_open_cases [of env path out init_st]) (auto simp: cc)
  show "doclens s1 =
      (case chert_database_open env path of
         Inl e \<Rightarrow> empty_vec
       | Inr (l, r) \<Rightarrow> doclens (reserve_doclens env l out init_st))"
    using assms
    by (cases rule: chert_open_cases [of env path out init_st])
      (auto simp: reserve_doclens_vec split: sum.split)
  show "errors s1 = (case chert_database_open env path of Inl e \<Rightarrow> 1 | Inr x \<Rightarrow> 0)
           \<or> r \<noteq> None"
    using assms by (cases rule: chert_open_cases [of env path out init_st]) auto
qed

lemma present_fun:
  "(\<lambda>t. t = ''record'' \<or> t = ''postlist'' \<or> file_exists env (path @ ''/'' @ t @ ''.DB'')) =
     present env path"
  by (simp add: present_def fun_eq_iff)

lemma chert_check_names:
  assumes "stat_ok env (path @ ''/iamchert'')" and "has_chert_backend env"
  shows "prefix (checked_tables (snd (check env path opts out)))
           (filter (present env path) chert_tables)"
    and "\<And>n. fst (check env path opts out) = Inr n \<Longrightarrow>
           checked_tables (snd (check env path opts out)) =
             filter (present env path) chert_tables"
    and "doclens_threaded env
           (case chert_database_open env path of
              Inl e \<Rightarrow> empty_vec
            | Inr (l, r) \<Rightarrow> doclens (reserve_doclens env l out init_st))
           (table_checks (snd (check env path opts out)))"
proof -
  let ?tr = "snd (check env path opts out)"
  let ?expected = "filter (present env path) chert_tables"
  let ?d0 = "case chert_database_open env path of
               Inl e \<Rightarrow> empty_vec
             | Inr (l, r) \<Rightarrow> doclens (reserve_doclens env l out init_st)"
  let ?opts = "effective_opts env opts out"
  have loop: "prefix (checked_tables (trace s2)) ?expected \<and>
      (r2 = None \<longrightarrow> checked_tables (trace s2) = ?expected) \<and>
      doclens_threaded env ?d0 (table_checks (trace s2))"
    if op: "chert_open env path out init_st = (r1, s1, l)"
      and lp: "chert_table_loop env path ?opts out l chert_tables s1 = (r2, s2)"
    for r1 s1 l r2 s2
  proof -
    note s1 = chert_open_state [OF op]
    from chert_loop_names [of env path ?opts out l chert_tables s1] obtain V where
      "checked_tables (trace (snd (chert_table_loop env path ?opts out l chert_tables s1))) =
         checked_tables (trace s1) @ V \<and>
       prefix V ?expected \<and>
       (fst (chert_table_loop env path ?opts out l chert_tables s1) = None \<longrightarrow> V = ?expected)" ..
    then have names: "prefix (checked_tables (trace s2)) ?expected"
      "r2 = None \<longrightarrow> checked_tables (trace s2) = ?expected"
      using lp s1(1) by (simp_all add: checked_tables_def)
    have "doclens_threaded env ?d0
        (table_checks (trace (snd (chert_table_loop env path ?opts out l chert_tables s1))))"
      by (rule chert_loop_doclens) (simp_all add: s1)
    then show ?thesis
      using names lp by simp
  qed
  have main: "prefix (checked_tables ?tr) ?expected \<and>
      (\<forall>n. fst (check env path opts out) = Inr n \<longrightarrow> checked_tables ?tr = ?expected) \<and>
      doclens_threaded env ?d0 (table_checks ?tr)"
    using assms
  proof (cases rule: chert_check_cases [where out = out and ?opts0.0 = opts])
    case (open_throws e s1 l)
    then show ?thesis
      using chert_open_state(1) [OF open_throws(1)] by (simp add: checked_tables_def)
  next
    case (table_throws s1 l e s2)
    then show ?thesis
      using loop [OF table_throws(1,2)] by simp
  next
    case (no_repair s1 l s2)
    then show ?thesis
      using loop [OF no_repair(1,2)] by simp
  next
    case (repair s1 l s2)
    have "table_checks (trace (snd (chert_version_repair env path s2))) = table_checks (trace s2)"
      by (simp add: chert_version_repair_trace split: option.split)
    then show ?thesis
      using loop [OF repair(1,2)] repair(5) by (simp add: checked_tables_def)
  qed
  show "prefix (checked_tables ?tr) ?expected"
    using main by simp
  show "checked_tables ?tr = ?expected" if "fst (check env path opts out) = Inr n" for n
    using main that by simp
  show "doclens_threaded env ?d0 (table_checks ?tr)"
    using main by simp
qed

text \<open>
  C4. In a whole-database chert check the per-table checker is called on the tables in
  the order record, termlist, postlist, position, spelling, synonym: the names checked
  are a subsequence of that list, namely an initial part of the tables that are
  mandatory or have a \<open>.DB\<close> file, and all of these when \<open>check\<close> returns. In particular
  termlist is never checked after postlist. The vector is shared: the first call
  receives the vector as the opening phase left it, and every later call receives the
  vector the call before it left behind, so what the termlist check stores is what the
  postlist check reads.
\<close>

theorem chert_tables_in_order:
  assumes "stat_ok env (path @ ''/iamchert'')" and "has_chert_backend env"
  shows
    "(let tr = snd (check env path opts out);
          expected =
            filter (\<lambda>t. t = ''record'' \<or> t = ''postlist'' \<or>
                         file_exists env (path @ ''/'' @ t @ ''.DB''))
              [''record'', ''termlist'', ''postlist'', ''position'', ''spelling'', ''synonym''];
          d0 = (case chert_database_open env path of
                  Inl e \<Rightarrow> empty_vec
                | Inr (l, r) \<Rightarrow> doclens (reserve_doclens env l out init_st))
      in prefix (checked_tables tr) expected \<and>
         subseq (checked_tables tr)
           [''record'', ''termlist'', ''postlist'', ''position'', ''spelling'', ''synonym''] \<and>
         (\<forall>n. fst (check env path opts out) = Inr n \<longrightarrow> checked_tables tr = expected) \<and>
         doclens_threaded env d0 (table_checks tr))"
proof -
  let ?tr = "snd (check env path opts out)"
  note names = chert_check_names [OF assms, where opts = opts and out = out]
  have sub: "subseq (checked_tables ?tr) chert_tables"
  proof -
    have "subseq (checked_tables ?tr) (filter (present env path) chert_tables)"
      using names(1) by (rule prefix_imp_subseq)
    also have "subseq (filter (present env path) chert_tables) chert_tables"
      by simp
    finally show ?thesis .
  qed
  show ?thesis
    unfolding Let_def present_fun
    using names sub by (simp add: chert_tables_def)
qed

theorem chert_tables_in_order_witness:
  "stat_ok env_chert (''db'' @ ''/iamchert'') \<and> has_chert_backend env_chert \<and>
   fst (check env_chert ''db'' 0 False) = Inr 0 \<and>
   checked_tables (snd (check env_chert ''db'' 0 False)) =
     [''record'', ''termlist'', ''postlist''] \<and>
   doclens_threaded env_chert \<lparr>elems = [], capacity = 6\<rparr>
     (table_checks (snd (check env_chert ''db'' 0 False)))"
proof -
  have h1: "stat_ok env_chert (''db'' @ ''/iamchert'')"
    by (simp add: env_chert_def)
  have h2: "has_chert_backend env_chert"
    by (simp add: env_chert_def env0_def)
  have h3: "fst (check env_chert ''db'' 0 False) = Inr 0"
    by (simp add: env_chert_run)
  show ?thesis
    using chert_tables_in_order [OF h1 h2, where opts = 0 and out = False] h1 h2 h3
    by (simp add: run_defs env_chert_def env0_def)
qed

section \<open>What a whole-database chert check leaves in the trace\<close>

lemma chert_open_more:
  assumes "chert_open env path out init_st = (None, s1, l)"
  shows "l = (case chert_database_open env path of Inl e \<Rightarrow> - 1 | Inr (l, r) \<Rightarrow> l)"
    and "errors s1 = (case chert_database_open env path of Inl e \<Rightarrow> 1 | Inr x \<Rightarrow> 0)"
    and "filter is_reserve_call (trace s1) =
      (case chert_database_open env path of Inl e \<Rightarrow> [] | Inr (l, r) \<Rightarrow> [CallReserveDoclens l])"
    and "\<And>e. chert_database_open env path = Inl e \<Longrightarrow> is_xapian_error e"
    and "table_errors env (trace s1) = 0"
    and "\<forall>e\<in>set (table_checks (trace s1)). P e"
proof -
  show "l = (case chert_database_open env path of Inl e \<Rightarrow> - 1 | Inr (l, r) \<Rightarrow> l)"
    using assms by (cases rule: chert_open_cases [of env path out init_st]) auto
  show "errors s1 = (case chert_database_open env path of Inl e \<Rightarrow> 1 | Inr x \<Rightarrow> 0)"
    using assms by (cases rule: chert_open_cases [of env path out init_st]) auto
  show "filter is_reserve_call (trace s1) =
      (case chert_database_open env path of Inl e \<Rightarrow> [] | Inr (l, r) \<Rightarrow> [CallReserveDoclens l])"
    using assms
    by (cases rule: chert_open_cases [of env path out init_st])
      (auto simp: reserve_doclens_calls)
  show "is_xapian_error e" if "chert_database_open env path = Inl e" for e
    using assms that by (cases rule: chert_open_cases [of env path out init_st]) auto
  show "table_errors env (trace s1) = 0"
    using chert_open_state(1) [OF assms] by (simp add: table_errors_def)
  show "\<forall>e\<in>set (table_checks (trace s1)). P e"
    using chert_open_state(1) [OF assms] by simp
qed

lemma chert_open_quiet:
  assumes "chert_open env path out init_st = (r, s1, l)" and "\<not> out"
  shows "filter is_out (trace s1) = []"
  using assms
  by (cases rule: chert_open_cases [of env path out init_st])
    (auto simp: reserve_doclens_quiet)

lemma chert_loop_quiet:
  assumes "\<not> out"
  shows "filter is_out (trace (snd (chert_table_loop env path opts out l ts s))) =
    filter is_out (trace s)"
proof -
  let ?I = "\<lambda>s'::st. filter is_out (trace s') = filter is_out (trace s)"
  have "?I (snd (chert_table_loop env path opts out l ts s))"
    by (rule chert_loop_invariant) (simp_all add: chert_step_trace assms)
  then show ?thesis .
qed

lemma repair_filter:
  assumes "\<And>p. \<not> P (ChertVersionReadAndCheck p)" and "\<And>p. \<not> P (ChertVersionCreate p)"
  shows "filter P (trace (snd (chert_version_repair env path s))) = filter P (trace s)"
  by (simp add: chert_version_repair_trace assms split: option.split)

lemma chert_check_errors:
  assumes "stat_ok env (path @ ''/iamchert'')" and "has_chert_backend env"
    and "fst (check env path opts out) = Inr n"
  shows "n = (case chert_database_open env path of Inl e \<Rightarrow> 1 | Inr x \<Rightarrow> 0) +
            table_errors env (snd (check env path opts out))"
  using assms(1,2)
proof (cases rule: chert_check_cases [where out = out and ?opts0.0 = opts])
  case (open_throws e s1 l)
  with assms(3) show ?thesis by simp
next
  case (table_throws s1 l e s2)
  with assms(3) show ?thesis by simp
next
  case (no_repair s1 l s2)
  from chert_loop_errors [of env path "effective_opts env opts out" out l chert_tables s1]
  have "errors s2 = errors s1 + table_errors env (trace s2)"
    by (simp add: no_repair(2) chert_open_more(5) [OF no_repair(1)])
  then show ?thesis
    using assms(3) no_repair(4) chert_open_more(2) [OF no_repair(1)] by simp
next
  case (repair s1 l s2)
  from chert_loop_errors [of env path "effective_opts env opts out" out l chert_tables s1]
  have "errors s2 = errors s1 + table_errors env (trace s2)"
    by (simp add: repair(2) chert_open_more(5) [OF repair(1)])
  moreover have "table_errors env (trace (snd (chert_version_repair env path s2))) =
      table_errors env (trace s2)"
    unfolding table_errors_def table_checks_def by (simp add: repair_filter)
  moreover have "n = errors s2"
    using assms(3) repair(5) by (simp add: fst_finish split: option.splits)
  ultimately show ?thesis
    using repair(5) chert_open_more(2) [OF repair(1)] by simp
qed

lemma chert_check_last_docid:
  assumes "stat_ok env (path @ ''/iamchert'')" and "has_chert_backend env"
  shows "\<forall>e\<in>set (table_checks (snd (check env path opts out))).
           check_last_docid e =
             (case chert_database_open env path of Inl e \<Rightarrow> - 1 | Inr (l, r) \<Rightarrow> l)"
proof -
  let ?l = "case chert_database_open env path of Inl e \<Rightarrow> - 1 | Inr (l, r) \<Rightarrow> l"
  have loop: "\<forall>e\<in>set (table_checks (trace s2)). check_last_docid e = ?l"
    if op: "chert_open env path out init_st = (None, s1, l)"
      and lp: "chert_table_loop env path (effective_opts env opts out) out l chert_tables s1 =
        (r2, s2)"
    for s1 l r2 s2
  proof -
    have "\<forall>e\<in>set (table_checks (trace (snd (chert_table_loop env path
        (effective_opts env opts out) out l chert_tables s1)))). check_last_docid e = l"
      by (rule chert_loop_last_docid) (rule chert_open_more(6) [OF op])
    then show ?thesis
      using lp chert_open_more(1) [OF op] by simp
  qed
  from assms show ?thesis
  proof (cases rule: chert_check_cases [where out = out and ?opts0.0 = opts])
    case (open_throws e s1 l)
    then show ?thesis
      using chert_open_state(1) [OF open_throws(1)] by simp
  next
    case (table_throws s1 l e s2)
    then show ?thesis
      using loop [OF table_throws(1,2)] by simp
  next
    case (no_repair s1 l s2)
    then show ?thesis
      using loop [OF no_repair(1,2)] by simp
  next
    case (repair s1 l s2)
    have "table_checks (trace (snd (chert_version_repair env path s2))) = table_checks (trace s2)"
      unfolding table_checks_def by (simp add: repair_filter)
    then show ?thesis
      using loop [OF repair(1,2)] repair(5) by simp
  qed
qed

lemma chert_check_reserve_calls:
  assumes "stat_ok env (path @ ''/iamchert'')" and "has_chert_backend env"
  shows "filter is_reserve_call (snd (check env path opts out)) =
     (case chert_database_open env path of Inl e \<Rightarrow> [] | Inr (l, r) \<Rightarrow> [CallReserveDoclens l])"
proof -
  let ?R = "case chert_database_open env path of
              Inl e \<Rightarrow> [] | Inr (l, r) \<Rightarrow> [CallReserveDoclens l]"
  have loop: "filter is_reserve_call (trace s2) = ?R"
    if op: "chert_open env path out init_st = (None, s1, l)"
      and lp: "chert_table_loop env path (effective_opts env opts out) out l chert_tables s1 =
        (r2, s2)"
    for s1 l r2 s2
  proof -
    have "filter is_reserve_call (trace (snd (chert_table_loop env path
        (effective_opts env opts out) out l chert_tables s1))) = filter is_reserve_call (trace s1)"
      by (rule chert_loop_filter) (auto elim: is_table_check.elims)
    then show ?thesis
      using lp chert_open_more(3) [OF op] by simp
  qed
  from assms show ?thesis
  proof (cases rule: chert_check_cases [where out = out and ?opts0.0 = opts])
    case (open_throws e s1 l)
    then show ?thesis
      by (cases rule: chert_open_cases [of env path out init_st]) auto
  next
    case (table_throws s1 l e s2)
    then show ?thesis
      using loop [OF table_throws(1,2)] by simp
  next
    case (no_repair s1 l s2)
    then show ?thesis
      using loop [OF no_repair(1,2)] by simp
  next
    case (repair s1 l s2)
    then show ?thesis
      using loop [OF repair(1,2)] by (simp add: repair_filter)
  qed
qed

lemma chert_check_quiet:
  assumes "stat_ok env (path @ ''/iamchert'')" and "has_chert_backend env" and "\<not> out"
  shows "filter is_out (snd (check env path opts out)) = []"
proof -
  have loop: "filter is_out (trace s2) = []"
    if op: "chert_open env path out init_st = (None, s1, l)"
      and lp: "chert_table_loop env path (effective_opts env opts out) out l chert_tables s1 =
        (r2, s2)"
    for s1 l r2 s2
    using chert_loop_quiet [OF assms(3), of env path "effective_opts env opts out" l chert_tables s1]
      chert_open_quiet [OF op assms(3)] lp by simp
  from assms(1,2) show ?thesis
  proof (cases rule: chert_check_cases [where out = out and ?opts0.0 = opts])
    case (open_throws e s1 l)
    then show ?thesis
      using chert_open_quiet [OF open_throws(1) assms(3)] by simp
  next
    case (table_throws s1 l e s2)
    then show ?thesis
      using loop [OF table_throws(1,2)] by simp
  next
    case (no_repair s1 l s2)
    then show ?thesis
      using loop [OF no_repair(1,2)] by simp
  next
    case (repair s1 l s2)
    then show ?thesis
      using loop [OF repair(1,2)] by (simp add: repair_filter)
  qed
qed

section \<open>Tables that do not exist\<close>

lemma sublist_prefix_trans:
  "sublist xs ys \<Longrightarrow> prefix ys zs \<Longrightarrow> sublist xs zs"
proof -
  assume "sublist xs ys" and "prefix ys zs"
  then obtain ps ss qs where "ys = ps @ xs @ ss" and "zs = ys @ qs"
    unfolding sublist_def prefix_def by (elim exE)
  then have "zs = ps @ xs @ (ss @ qs)"
    by simp
  then show "sublist xs zs"
    unfolding sublist_def by (intro exI)
qed

lemma chert_loop_absent_msgs:
  assumes "out" and "t \<in> set ts" and "\<not> present env path t"
    and "fst (chert_table_loop env path opts out l ts s) = None"
  shows "sublist [Out (t @ '':'' @ nl), Out (msg_absent t)]
           (trace (snd (chert_table_loop env path opts out l ts s)))"
  using assms(2,4)
proof (induction ts arbitrary: s)
  case Nil
  then show ?case by simp
next
  case (Cons u ts)
  let ?step = "chert_table_step env path opts out l u s"
  have go: "fst ?step = None"
    using Cons.prems(2) by (simp add: chert_loop_Cons del: chert_table_loop.simps split: if_splits)
  then have rest: "fst (chert_table_loop env path opts out l ts (snd ?step)) = None"
    using Cons.prems(2) by (simp add: chert_loop_Cons del: chert_table_loop.simps)
  have eq: "chert_table_loop env path opts out l (u # ts) s =
      chert_table_loop env path opts out l ts (snd ?step)"
    using go by (simp add: chert_loop_Cons del: chert_table_loop.simps)
  show ?case
  proof (cases "t = u")
    case True
    then have "trace (snd ?step) = trace s @ [Out (t @ '':'' @ nl), Out (msg_absent t)]"
      using assms(1,3) by (simp add: chert_step_trace)
    then have "sublist [Out (t @ '':'' @ nl), Out (msg_absent t)] (trace (snd ?step))"
      by simp
    then have "sublist [Out (t @ '':'' @ nl), Out (msg_absent t)]
        (trace (snd (chert_table_loop env path opts out l ts (snd ?step))))"
      by (rule sublist_prefix_trans) (rule chert_loop_prefix)
    then show ?thesis
      by (simp only: eq)
  next
    case False
    then have "t \<in> set ts"
      using Cons.prems(1) by simp
    from Cons.IH [OF this rest] show ?thesis
      by (simp only: eq)
  qed
qed

lemma chert_check_absent_msgs:
  assumes "stat_ok env (path @ ''/iamchert'')" and "has_chert_backend env"
    and "fst (check env path opts out) = Inr n" and "out" and "t \<in> set chert_tables"
    and "\<not> present env path t"
  shows "sublist [Out (t @ '':'' @ nl), Out (msg_absent t)] (snd (check env path opts out))"
  using assms(1,2)
proof (cases rule: chert_check_cases [where out = out and ?opts0.0 = opts])
  case (open_throws e s1 l)
  with assms(3) show ?thesis by simp
next
  case (table_throws s1 l e s2)
  with assms(3) show ?thesis by simp
next
  case (no_repair s1 l s2)
  have "fst (chert_table_loop env path (effective_opts env opts out) out l chert_tables s1) = None"
    using no_repair(2) by simp
  with assms(4,5,6) have "sublist [Out (t @ '':'' @ nl), Out (msg_absent t)]
      (trace (snd (chert_table_loop env path (effective_opts env opts out) out l chert_tables s1)))"
    by (rule chert_loop_absent_msgs)
  then show ?thesis
    using no_repair(2,4) by simp
next
  case (repair s1 l s2)
  have "fst (chert_table_loop env path (effective_opts env opts out) out l chert_tables s1) = None"
    using repair(2) by simp
  with assms(4,5,6) have "sublist [Out (t @ '':'' @ nl), Out (msg_absent t)]
      (trace (snd (chert_table_loop env path (effective_opts env opts out) out l chert_tables s1)))"
    by (rule chert_loop_absent_msgs)
  then have "sublist [Out (t @ '':'' @ nl), Out (msg_absent t)] (trace s2)"
    using repair(2) by simp
  then have "sublist [Out (t @ '':'' @ nl), Out (msg_absent t)]
      (trace (snd (chert_version_repair env path s2)))"
    by (rule sublist_prefix_trans) (simp add: chert_version_repair_trace)
  then show ?thesis
    using repair(5) by simp
qed

text \<open>
  C5. In a whole-database chert check, a table other than record and postlist whose
  \<open>.DB\<close> file does not exist is never handed to the per-table checker, and the count
  returned is the error for a failed open plus the counts returned by the checks that
  were made, added in \<open>size_t\<close>, so the table adds nothing. With a sink, a run that
  returns has written the table's heading followed by \<open>Not present.\<close> for termlist and by
  \<open>Lazily created, and not yet used.\<close> for position, spelling and synonym; without a
  sink nothing is written. Record and postlist are checked in every run that returns,
  whatever files exist.
\<close>

theorem chert_absent_tables_skipped:
  assumes "stat_ok env (path @ ''/iamchert'')" and "has_chert_backend env"
  shows
    "(let r = fst (check env path opts out);
          tr = snd (check env path opts out);
          absent = (t \<noteq> ''record'' \<and> t \<noteq> ''postlist'' \<and>
                    \<not> file_exists env (path @ ''/'' @ t @ ''.DB''));
          open_errors = (case chert_database_open env path of Inl e \<Rightarrow> 1 | Inr x \<Rightarrow> 0)
      in (absent \<longrightarrow> t \<notin> set (checked_tables tr)) \<and>
         (r = Inr n \<longrightarrow> n = open_errors + table_errors env tr) \<and>
         (r = Inr n \<and> out \<and> absent \<and>
            t \<in> set [''termlist'', ''position'', ''spelling'', ''synonym''] \<longrightarrow>
            sublist [Out (t @ '':'' @ nl), Out (msg_absent t)] tr) \<and>
         (\<not> out \<longrightarrow> filter is_out tr = []) \<and>
         (r = Inr n \<longrightarrow>
            ''record'' \<in> set (checked_tables tr) \<and> ''postlist'' \<in> set (checked_tables tr)) \<and>
         msg_absent ''termlist'' = ''Not present.'' @ nl @ nl \<and>
         (t \<noteq> ''termlist'' \<longrightarrow> msg_absent t = ''Lazily created, and not yet used.'' @ nl @ nl))"
proof -
  let ?r = "fst (check env path opts out)"
  let ?tr = "snd (check env path opts out)"
  note names = chert_check_names [OF assms, where opts = opts and out = out]
  let ?absent = "t \<noteq> ''record'' \<and> t \<noteq> ''postlist'' \<and>
      \<not> file_exists env (path @ ''/'' @ t @ ''.DB'')"
  have abs_iff: "?absent = (\<not> present env path t)"
    by (simp add: present_def)
  have a: "t \<notin> set (checked_tables ?tr)" if "\<not> present env path t"
  proof -
    have "set (checked_tables ?tr) \<subseteq> set (filter (present env path) chert_tables)"
      using names(1) by (rule set_mono_prefix)
    moreover have "t \<notin> set (filter (present env path) chert_tables)"
      using that by simp
    ultimately show ?thesis
      by (rule contra_subsetD)
  qed
  have b: "n = (case chert_database_open env path of Inl e \<Rightarrow> 1 | Inr x \<Rightarrow> 0) +
      table_errors env ?tr" if "?r = Inr n"
    using assms that by (rule chert_check_errors)
  have c: "sublist [Out (t @ '':'' @ nl), Out (msg_absent t)] ?tr"
    if "?r = Inr n \<and> out \<and> \<not> present env path t \<and>
      t \<in> set [''termlist'', ''position'', ''spelling'', ''synonym'']"
  proof -
    from that have r: "?r = Inr n" and o: "out" and np: "\<not> present env path t"
      and mem: "t \<in> set [''termlist'', ''position'', ''spelling'', ''synonym'']"
      by blast+
    have "set [''termlist'', ''position'', ''spelling'', ''synonym''] \<subseteq> set chert_tables"
      by (simp add: chert_tables_def)
    with mem have "t \<in> set chert_tables"
      by (rule rev_subsetD)
    with assms r o show ?thesis
      using np by (rule chert_check_absent_msgs)
  qed
  have d: "filter is_out ?tr = []" if "\<not> out"
    using assms that by (rule chert_check_quiet)
  have e: "''record'' \<in> set (checked_tables ?tr) \<and> ''postlist'' \<in> set (checked_tables ?tr)"
    if "?r = Inr n"
    using names(2) [OF that] by (simp add: chert_tables_def present_def)
  have f: "msg_absent ''termlist'' = ''Not present.'' @ nl @ nl"
    by (simp add: msg_absent_def)
  have g: "msg_absent t = ''Lazily created, and not yet used.'' @ nl @ nl" if "t \<noteq> ''termlist''"
    using that by (simp add: msg_absent_def)
  show ?thesis
    unfolding Let_def abs_iff
  proof (intro conjI impI)
    show "t \<notin> set (checked_tables ?tr)" if "\<not> present env path t"
      using that by (rule a)
    show "n = (case chert_database_open env path of Inl e \<Rightarrow> 1 | Inr x \<Rightarrow> 0) +
        table_errors env ?tr" if "?r = Inr n"
      using that by (rule b)
    show "sublist [Out (t @ '':'' @ nl), Out (msg_absent t)] ?tr"
      if "?r = Inr n \<and> out \<and> \<not> present env path t \<and>
        t \<in> set [''termlist'', ''position'', ''spelling'', ''synonym'']"
      using that by (rule c)
    show "filter is_out ?tr = []" if "\<not> out"
      using that by (rule d)
    show "''record'' \<in> set (checked_tables ?tr)" if "?r = Inr n"
      using e [OF that] by (rule conjunct1)
    show "''postlist'' \<in> set (checked_tables ?tr)" if "?r = Inr n"
      using e [OF that] by (rule conjunct2)
    show "msg_absent ''termlist'' = ''Not present.'' @ nl @ nl"
      by (rule f)
    show "msg_absent t = ''Lazily created, and not yet used.'' @ nl @ nl" if "t \<noteq> ''termlist''"
      using that by (rule g)
  qed
qed


lemma env_chert_bare_run:
  "check env_chert_bare ''db'' 0 True =
     (Inr 0,
      [ChertDatabaseOpen ''db'', CallReserveDoclens 5, Reserve 6,
       Out (''record:'' @ nl),
       CheckChertTable ''record'' ''db/record'' (Some 7) 0 \<lparr>elems = [], capacity = 6\<rparr> 5 True,
       Out (''termlist:'' @ nl), Out (''Not present.'' @ nl @ nl),
       Out (''postlist:'' @ nl),
       CheckChertTable ''postlist'' ''db/postlist'' (Some 7) 0 \<lparr>elems = [], capacity = 6\<rparr> 5 True,
       Out (''position:'' @ nl), Out (''Lazily created, and not yet used.'' @ nl @ nl),
       Out (''spelling:'' @ nl), Out (''Lazily created, and not yet used.'' @ nl @ nl),
       Out (''synonym:'' @ nl), Out (''Lazily created, and not yet used.'' @ nl @ nl)])"
  by (simp add: run_defs msg_absent_def env_chert_bare_def env0_def)

theorem chert_absent_tables_skipped_witness:
  "stat_ok env_chert_bare (''db'' @ ''/iamchert'') \<and> has_chert_backend env_chert_bare \<and>
   fst (check env_chert_bare ''db'' 0 True) = Inr 0 \<and>
   ''termlist'' \<notin> set (checked_tables (snd (check env_chert_bare ''db'' 0 True))) \<and>
   ''record'' \<in> set (checked_tables (snd (check env_chert_bare ''db'' 0 True))) \<and>
   ''postlist'' \<in> set (checked_tables (snd (check env_chert_bare ''db'' 0 True))) \<and>
   sublist [Out (''termlist:'' @ nl), Out (''Not present.'' @ nl @ nl)]
     (snd (check env_chert_bare ''db'' 0 True)) \<and>
   sublist [Out (''spelling:'' @ nl), Out (''Lazily created, and not yet used.'' @ nl @ nl)]
     (snd (check env_chert_bare ''db'' 0 True)) \<and>
   0 = 0 + table_errors env_chert_bare (snd (check env_chert_bare ''db'' 0 True)) \<and>
   filter is_out (snd (check env_chert_bare ''db'' 0 False)) = []"
proof -
  have h1: "stat_ok env_chert_bare (''db'' @ ''/iamchert'')"
    by (simp add: env_chert_bare_def)
  have h2: "has_chert_backend env_chert_bare"
    by (simp add: env_chert_bare_def env0_def)
  have h3: "fst (check env_chert_bare ''db'' 0 True) = Inr 0"
    by (simp add: env_chert_bare_run)
  have h4: "\<not> file_exists env_chert_bare p" for p
    by (simp add: env_chert_bare_def env0_def)
  have h5: "chert_database_open env_chert_bare p = Inr (5, 7)" for p
    by (simp add: env_chert_bare_def env0_def)
  show ?thesis
    using
      chert_absent_tables_skipped [OF h1 h2, where t = "''termlist''" and n = 0 and opts = 0
        and out = True]
      chert_absent_tables_skipped [OF h1 h2, where t = "''spelling''" and n = 0 and opts = 0
        and out = True]
      chert_absent_tables_skipped [OF h1 h2, where t = "''spelling''" and n = 0 and opts = 0
        and out = False]
      h1 h2 h3
    by (simp add: Let_def h4 h5 msg_absent_def)
qed

section \<open>A database that cannot be opened\<close>

lemma chert_check_open_prefix:
  assumes "stat_ok env (path @ ''/iamchert'')" and "has_chert_backend env"
    and "chert_database_open env path = Inl e" and "is_xapian_error e"
  shows "prefix (ChertDatabaseOpen path # (if out then [Out (msg_open_failed env e)] else []))
           (snd (check env path opts out))"
proof -
  let ?p = "ChertDatabaseOpen path # (if out then [Out (msg_open_failed env e)] else [])"
  have s1: "trace s1 = ?p" if "chert_open env path out init_st = (r, s1, l)" for r s1 l
    using that assms(3,4) by (cases rule: chert_open_cases [of env path out init_st]) auto
  have loop: "prefix ?p (trace s2)"
    if op: "chert_open env path out init_st = (None, s1, l)"
      and lp: "chert_table_loop env path (effective_opts env opts out) out l chert_tables s1 =
        (r2, s2)"
    for s1 l r2 s2
    using chert_loop_prefix [of s1 env path "effective_opts env opts out" out l chert_tables]
      s1 [OF op] lp by simp
  from assms(1,2) show ?thesis
  proof (cases rule: chert_check_cases [where out = out and ?opts0.0 = opts])
    case (open_throws e s1 l)
    then show ?thesis
      using s1 [OF open_throws(1)] by simp
  next
    case (table_throws s1 l e s2)
    then show ?thesis
      using loop [OF table_throws(1,2)] by simp
  next
    case (no_repair s1 l s2)
    then show ?thesis
      using loop [OF no_repair(1,2)] by simp
  next
    case (repair s1 l s2)
    have "prefix (trace s2) (trace (snd (chert_version_repair env path s2)))"
      by (simp add: chert_version_repair_trace)
    with loop [OF repair(1,2)] have "prefix ?p (trace (snd (chert_version_repair env path s2)))"
      by (rule prefix_order.trans)
    then show ?thesis
      using repair(5) by simp
  qed
qed

lemma env_open_fails_run:
  "check env_open_fails ''db'' 0 True =
     (Inr 1,
      [ChertDatabaseOpen ''db'',
       Out (''Database couldn't be opened for reading: Error'' @ nl @
            ''Continuing check anyway'' @ nl),
       Out (''record:'' @ nl),
       CheckChertTable ''record'' ''db/record'' (Some 0) 0 \<lparr>elems = [], capacity = 0\<rparr> (- 1) True,
       Out (''termlist:'' @ nl), Out (''Not present.'' @ nl @ nl),
       Out (''postlist:'' @ nl),
       CheckChertTable ''postlist'' ''db/postlist'' (Some 0) 0 \<lparr>elems = [], capacity = 0\<rparr>
         (- 1) True,
       Out (''position:'' @ nl), Out (''Lazily created, and not yet used.'' @ nl @ nl),
       Out (''spelling:'' @ nl), Out (''Lazily created, and not yet used.'' @ nl @ nl),
       Out (''synonym:'' @ nl), Out (''Lazily created, and not yet used.'' @ nl @ nl)])"
  by (simp add: run_defs msg_absent_def msg_open_failed_def env_open_fails_def
      env_chert_bare_def env0_def)

text \<open>
  C2, as stated, fails: when the low-level open throws, \<open>reserve_doclens\<close> is not
  called at all. In this run the open fails, one error is counted, both mandatory
  tables are checked with the placeholder \<open>- 1\<close>, and the trace holds neither a call of
  \<open>reserve_doclens\<close> with the placeholder nor the message that such a call writes to
  the sink.
\<close>

theorem allocator_called_with_placeholder_counterexample:
  "fst (check env_open_fails ''db'' 0 True) = Inr 1 \<and>
   CallReserveDoclens (- 1) \<notin> set (snd (check env_open_fails ''db'' 0 True)) \<and>
   Out msg_too_large \<notin> set (snd (check env_open_fails ''db'' 0 True))"
  by (simp add: env_open_fails_run msg_too_large_def)

text \<open>
  C2, amended. When the low-level open of a whole chert database throws a
  \<open>Xapian::Error\<close>, the trace starts with the open and, with a sink only, the failure
  description; \<open>reserve_doclens\<close> is not called; every table check is passed the
  placeholder \<open>- 1\<close>; the tables checked are an initial part of the mandatory or
  present ones, all of them when \<open>check\<close> returns, and the count returned is then one
  plus the counts the table checks returned, added in \<open>size_t\<close> as the program adds
  them. When the open succeeds, \<open>reserve_doclens\<close> is called once, with the last docid
  of the database, which is also what the table checks are passed.
\<close>

theorem chert_open_failure_tolerated:
  assumes "stat_ok env (path @ ''/iamchert'')" and "has_chert_backend env"
  shows
    "(let r = fst (check env path opts out);
          tr = snd (check env path opts out);
          expected =
            filter (\<lambda>t. t = ''record'' \<or> t = ''postlist'' \<or>
                         file_exists env (path @ ''/'' @ t @ ''.DB''))
              [''record'', ''termlist'', ''postlist'', ''position'', ''spelling'', ''synonym'']
      in (chert_database_open env path = Inl e \<and> is_xapian_error e \<longrightarrow>
            prefix (ChertDatabaseOpen path # (if out then [Out (msg_open_failed env e)] else []))
              tr \<and>
            (\<not> out \<longrightarrow> filter is_out tr = []) \<and>
            filter is_reserve_call tr = [] \<and>
            (\<forall>ev\<in>set (table_checks tr). check_last_docid ev = - 1) \<and>
            prefix (checked_tables tr) expected \<and>
            (r = Inr n \<longrightarrow> checked_tables tr = expected \<and> n = 1 + table_errors env tr)) \<and>
         (chert_database_open env path = Inr (l, rv) \<longrightarrow>
            filter is_reserve_call tr = [CallReserveDoclens l] \<and>
            (\<forall>ev\<in>set (table_checks tr). check_last_docid ev = l)))"
proof -
  let ?r = "fst (check env path opts out)"
  let ?tr = "snd (check env path opts out)"
  let ?expected = "filter (present env path) chert_tables"
  note names = chert_check_names [OF assms, where opts = opts and out = out]
  note last = chert_check_last_docid [OF assms, where opts = opts and out = out]
  note calls = chert_check_reserve_calls [OF assms, where opts = opts and out = out]
  have failed: "prefix (ChertDatabaseOpen path # (if out then [Out (msg_open_failed env e)] else []))
        ?tr \<and>
      (\<not> out \<longrightarrow> filter is_out ?tr = []) \<and>
      filter is_reserve_call ?tr = [] \<and>
      (\<forall>ev\<in>set (table_checks ?tr). check_last_docid ev = - 1) \<and>
      prefix (checked_tables ?tr) ?expected \<and>
      (?r = Inr n \<longrightarrow> checked_tables ?tr = ?expected \<and> n = 1 + table_errors env ?tr)"
    if f: "chert_database_open env path = Inl e \<and> is_xapian_error e"
  proof (intro conjI impI)
    from f have f1: "chert_database_open env path = Inl e" and f2: "is_xapian_error e"
      by blast+
    show "prefix (ChertDatabaseOpen path # (if out then [Out (msg_open_failed env e)] else []))
        ?tr"
      using assms f1 f2 by (rule chert_check_open_prefix)
    show "filter is_out ?tr = []" if "\<not> out"
      using assms that by (rule chert_check_quiet)
    show "filter is_reserve_call ?tr = []"
      using calls f1 by simp
    show "\<forall>ev\<in>set (table_checks ?tr). check_last_docid ev = - 1"
      using last f1 by simp
    show "prefix (checked_tables ?tr) ?expected"
      by (rule names(1))
    show "checked_tables ?tr = ?expected" if "?r = Inr n"
      using that by (rule names(2))
    show "n = 1 + table_errors env ?tr" if "?r = Inr n"
      using chert_check_errors [OF assms that] f1 by simp
  qed
  have opened: "filter is_reserve_call ?tr = [CallReserveDoclens l] \<and>
      (\<forall>ev\<in>set (table_checks ?tr). check_last_docid ev = l)"
    if "chert_database_open env path = Inr (l, rv)"
    using calls last that by simp
  show ?thesis
    unfolding Let_def present_fun
    using failed opened by (simp only: chert_tables_def [symmetric]) blast
qed


theorem chert_open_failure_tolerated_witness:
  "stat_ok env_open_fails (''db'' @ ''/iamchert'') \<and> has_chert_backend env_open_fails \<and>
   chert_database_open env_open_fails ''db'' = Inl (DatabaseError ''cannot open'') \<and>
   is_xapian_error (DatabaseError ''cannot open'') \<and>
   fst (check env_open_fails ''db'' 0 True) = Inr 1 \<and>
   1 = 1 + table_errors env_open_fails (snd (check env_open_fails ''db'' 0 True)) \<and>
   filter is_reserve_call (snd (check env_open_fails ''db'' 0 True)) = [] \<and>
   checked_tables (snd (check env_open_fails ''db'' 0 True)) = [''record'', ''postlist''] \<and>
   map check_last_docid (table_checks (snd (check env_open_fails ''db'' 0 True))) = [- 1, - 1] \<and>
   chert_database_open env_chert_bare ''db'' = Inr (5, 7) \<and>
   filter is_reserve_call (snd (check env_chert_bare ''db'' 0 True)) = [CallReserveDoclens 5] \<and>
   map check_last_docid (table_checks (snd (check env_chert_bare ''db'' 0 True))) = [5, 5]"
proof -
  have h1: "stat_ok env_open_fails (''db'' @ ''/iamchert'')"
    by (simp add: env_open_fails_def env_chert_bare_def)
  have h2: "has_chert_backend env_open_fails"
    by (simp add: env_open_fails_def env_chert_bare_def env0_def)
  have h3: "chert_database_open env_open_fails ''db'' = Inl (DatabaseError ''cannot open'')"
    by (simp add: env_open_fails_def)
  have h4: "fst (check env_open_fails ''db'' 0 True) = Inr 1"
    by (simp add: env_open_fails_run)
  have h5: "\<not> file_exists env_open_fails p" for p
    by (simp add: env_open_fails_def env_chert_bare_def env0_def)
  have h6: "table_checks (snd (check env_open_fails ''db'' 0 True)) =
      [CheckChertTable ''record'' ''db/record'' (Some 0) 0 \<lparr>elems = [], capacity = 0\<rparr> (- 1) True,
       CheckChertTable ''postlist'' ''db/postlist'' (Some 0) 0 \<lparr>elems = [], capacity = 0\<rparr>
         (- 1) True]"
    by (simp add: env_open_fails_run)
  have k1: "stat_ok env_chert_bare (''db'' @ ''/iamchert'')"
    by (simp add: env_chert_bare_def)
  have k2: "has_chert_backend env_chert_bare"
    by (simp add: env_chert_bare_def env0_def)
  have k3: "chert_database_open env_chert_bare ''db'' = Inr (5, 7)"
    by (simp add: env_chert_bare_def env0_def)
  have k4: "table_checks (snd (check env_chert_bare ''db'' 0 True)) =
      [CheckChertTable ''record'' ''db/record'' (Some 7) 0 \<lparr>elems = [], capacity = 6\<rparr> 5 True,
       CheckChertTable ''postlist'' ''db/postlist'' (Some 7) 0 \<lparr>elems = [], capacity = 6\<rparr> 5
         True]"
    by (simp add: env_chert_bare_run)
  show ?thesis
    using
      chert_open_failure_tolerated [OF h1 h2, where e = "DatabaseError ''cannot open''"
        and n = 1 and opts = 0 and out = True and l = 0 and rv = 0]
      chert_open_failure_tolerated [OF k1 k2, where e = "DatabaseError ''cannot open''"
        and n = 0 and opts = 0 and out = True and l = 5 and rv = 7]
      h1 h2 h3 h4 k3
    by (simp add: Let_def h5 h6 k4)
qed

section \<open>Repairing the version file\<close>

lemma chert_check_repairs:
  assumes "stat_ok env (path @ ''/iamchert'')" and "has_chert_backend env"
  shows "filter is_repair (snd (check env path opts out)) =
     (if opts AND DBCHECK_FIX env \<noteq> 0 \<and>
         table_errors env (snd (check env path opts out)) = 0 \<and>
         (\<forall>e. chert_database_open env path = Inl e \<longrightarrow> is_xapian_error e) \<and>
         (\<forall>ev\<in>set (table_checks (snd (check env path opts out))). \<not> check_threw env ev)
      then ChertVersionReadAndCheck path #
           (case chert_version_read_and_check env path of
              None \<Rightarrow> []
            | Some e \<Rightarrow> if is_database_error e then [ChertVersionCreate path] else [])
      else [])"
proof -
  let ?tr = "snd (check env path opts out)"
  let ?opts = "effective_opts env opts out"
  have loop:
    "filter is_repair (trace s2) = [] \<and>
     errors s2 = errors s1 + table_errors env (trace s2) \<and>
     ((r2 = None) = (\<forall>ev\<in>set (table_checks (trace s2)). \<not> check_threw env ev))"
    if op: "chert_open env path out init_st = (None, s1, l)"
      and lp: "chert_table_loop env path ?opts out l chert_tables s1 = (r2, s2)"
    for s1 l r2 s2
  proof -
    have "filter is_repair (trace (snd (chert_table_loop env path ?opts out l chert_tables s1))) =
        filter is_repair (trace s1)"
      by (rule chert_loop_filter) (auto elim: is_table_check.elims)
    then have a: "filter is_repair (trace s2) = []"
      using lp chert_open_state(2) [OF op] by simp
    from chert_loop_errors [of env path ?opts out l chert_tables s1]
    have b: "errors s2 = errors s1 + table_errors env (trace s2)"
      by (simp add: lp chert_open_more(5) [OF op])
    have "(fst (chert_table_loop env path ?opts out l chert_tables s1) = None) =
        (\<forall>e\<in>set (table_checks (trace (snd (chert_table_loop env path ?opts out l
            chert_tables s1)))). \<not> check_threw env e)"
      by (rule chert_loop_threw) (rule chert_open_more(6) [OF op])
    then have c: "(r2 = None) = (\<forall>ev\<in>set (table_checks (trace s2)). \<not> check_threw env ev)"
      using lp by simp
    from a b c show ?thesis
      by simp
  qed
  from assms show ?thesis
  proof (cases rule: chert_check_cases [where out = out and ?opts0.0 = opts])
    case (open_throws e s1 l)
    from open_throws(1) have "chert_database_open env path = Inl e \<and> \<not> is_xapian_error e"
      by (cases rule: chert_open_cases [of env path out init_st]) auto
    then have "\<not> (\<forall>e. chert_database_open env path = Inl e \<longrightarrow> is_xapian_error e)"
      by blast
    then show ?thesis
      using open_throws(2) chert_open_state(2) [OF open_throws(1)] by simp
  next
    case (table_throws s1 l e s2)
    from loop [OF table_throws(1,2)]
    have "filter is_repair (trace s2) = []"
      and "\<not> (\<forall>ev\<in>set (table_checks (trace s2)). \<not> check_threw env ev)"
      by simp_all
    then show ?thesis
      using table_throws(3) by simp
  next
    case (no_repair s1 l s2)
    from loop [OF no_repair(1,2)]
    have "filter is_repair (trace s2) = []"
      and "errors s2 = errors s1 + table_errors env (trace s2)"
      by simp_all
    then show ?thesis
      using no_repair(3,4) by auto
  next
    case (repair s1 l s2)
    from loop [OF repair(1,2)]
    have a: "filter is_repair (trace s2) = []"
      and b: "table_errors env (trace s2) = 0"
      and c: "\<forall>ev\<in>set (table_checks (trace s2)). \<not> check_threw env ev"
      using repair(3) by simp_all
    let ?s3 = "snd (chert_version_repair env path s2)"
    have tc: "table_checks (trace ?s3) = table_checks (trace s2)"
      unfolding table_checks_def by (simp add: repair_filter)
    have d: "table_errors env (trace ?s3) = 0"
      using b tc by (simp add: table_errors_def)
    have e: "\<forall>ev\<in>set (table_checks (trace ?s3)). \<not> check_threw env ev"
      using c tc by simp
    have f: "\<forall>e. chert_database_open env path = Inl e \<longrightarrow> is_xapian_error e"
      using chert_open_more(4) [OF repair(1)] by blast
    have g: "filter is_repair (trace ?s3) =
        ChertVersionReadAndCheck path #
          (case chert_version_read_and_check env path of
             None \<Rightarrow> []
           | Some e \<Rightarrow> if is_database_error e then [ChertVersionCreate path] else [])"
      using a by (simp add: chert_version_repair_trace split: option.split)
    show ?thesis
      using repair(4,5) d e f g by simp
  qed
qed


lemma env_open_fails_fix_run:
  "check env_open_fails ''db'' 16 False =
     (Inr 1,
      [ChertDatabaseOpen ''db'',
       CheckChertTable ''record'' ''db/record'' (Some 0) 16 \<lparr>elems = [], capacity = 0\<rparr> (- 1)
         False,
       CheckChertTable ''postlist'' ''db/postlist'' (Some 0) 16 \<lparr>elems = [], capacity = 0\<rparr>
         (- 1) False,
       ChertVersionReadAndCheck ''db''])"
  by (simp add: run_defs msg_absent_def msg_open_failed_def env_open_fails_def
      env_chert_bare_def env0_def)

lemma env_bad_version_run:
  "check env_bad_version ''db'' 16 False =
     (Inr 1,
      [ChertDatabaseOpen ''db'',
       CheckChertTable ''record'' ''db/record'' (Some 0) 16 \<lparr>elems = [], capacity = 0\<rparr> (- 1)
         False,
       CheckChertTable ''postlist'' ''db/postlist'' (Some 0) 16 \<lparr>elems = [], capacity = 0\<rparr>
         (- 1) False,
       ChertVersionReadAndCheck ''db'', ChertVersionCreate ''db''])"
  by (simp add: run_defs msg_absent_def msg_open_failed_def env_bad_version_def
      env_open_fails_def env_chert_bare_def env0_def)

lemma env_postlist_errors_run:
  "check env_postlist_errors ''db'' 16 False =
     (Inr 2,
      [ChertDatabaseOpen ''db'', CallReserveDoclens 5, Reserve 6,
       CheckChertTable ''record'' ''db/record'' (Some 7) 16 \<lparr>elems = [], capacity = 6\<rparr> 5 False,
       CheckChertTable ''postlist'' ''db/postlist'' (Some 7) 16 \<lparr>elems = [], capacity = 6\<rparr> 5
         False])"
  by (simp add: run_defs msg_absent_def env_postlist_errors_def env_chert_bare_def env0_def)

lemma env_chert_bare_quiet_run:
  "check env_chert_bare ''db'' 0 False =
     (Inr 0,
      [ChertDatabaseOpen ''db'', CallReserveDoclens 5, Reserve 6,
       CheckChertTable ''record'' ''db/record'' (Some 7) 0 \<lparr>elems = [], capacity = 6\<rparr> 5 False,
       CheckChertTable ''postlist'' ''db/postlist'' (Some 7) 0 \<lparr>elems = [], capacity = 6\<rparr> 5
         False])"
  by (simp add: run_defs msg_absent_def env_chert_bare_def env0_def)


lemma sum_words: "sum_list (ws :: size_t list) = word_of_nat (sum_list (map unat ws))"
  by (induction ws) simp_all

lemma table_errors_found: "table_errors env tr = word_of_nat (errors_found env tr)"
  unfolding table_errors_def errors_found_def
  by (simp add: sum_words [of "map (check_errors env) (table_checks tr)"] comp_def)

lemma table_errors_zero:
  assumes "errors_found env tr < 2 ^ 64"
  shows "(table_errors env tr = 0) = (errors_found env tr = 0)"
proof -
  have "(table_errors env tr = 0) = (2 ^ 64 dvd errors_found env tr)"
    by (simp add: table_errors_found word_of_nat_eq_0_iff)
  also have "\<dots> = (errors_found env tr = 0)"
    using assms by (auto dest: dvd_imp_le)
  finally show ?thesis .
qed

lemma errors_found_zero:
  "(errors_found env tr = 0) = (\<forall>ev\<in>set (table_checks tr). check_errors env ev = 0)"
  by (simp add: errors_found_def unat_eq_0)

lemma env_count_wraps_run:
  "check env_count_wraps ''db'' 16 False =
     (Inr 0,
      [ChertDatabaseOpen ''db'', CallReserveDoclens 5, Reserve 6,
       CheckChertTable ''record'' ''db/record'' (Some 7) 16 \<lparr>elems = [], capacity = 6\<rparr> 5 False,
       CheckChertTable ''postlist'' ''db/postlist'' (Some 7) 16 \<lparr>elems = [], capacity = 6\<rparr> 5
         False,
       ChertVersionReadAndCheck ''db''])"
  by (simp add: run_defs msg_absent_def env_count_wraps_def env_chert_bare_def env0_def)

text \<open>
  C3. In a whole-database chert check in which neither the open nor a table check
  escapes with an exception, \<open>read_and_check\<close> is called on the version file if and only
  if \<open>DBCHECK_FIX\<close> is set and the table checks left the error count where it was
  before the loop, that is, the counts they returned add up to zero in \<open>size_t\<close>; the
  error of a failed open does not enter into it. That sum is the number of errors found
  modulo \<open>2^64\<close>, so unless \<open>2^64\<close> or more errors were found it is zero exactly when
  every table check returned zero. In every run, a repair attempt implies both
  conditions, so with a changed count or without \<open>DBCHECK_FIX\<close> nothing is touched. The
  version file is recreated exactly when the attempt was made and \<open>read_and_check\<close>
  threw a \<open>DatabaseError\<close>. These are the only calls on the version file.
\<close>

theorem chert_repair_iff:
  assumes "stat_ok env (path @ ''/iamchert'')" and "has_chert_backend env"
  shows
    "(let tr = snd (check env path opts out);
          fix_set = (opts AND DBCHECK_FIX env \<noteq> 0);
          completed =
            ((\<forall>e. chert_database_open env path = Inl e \<longrightarrow> is_xapian_error e) \<and>
             (\<forall>ev\<in>set (table_checks tr). \<not> check_threw env ev));
          attempted = (ChertVersionReadAndCheck path \<in> set tr);
          rewritten = (ChertVersionCreate path \<in> set tr)
      in (completed \<longrightarrow> attempted = (fix_set \<and> table_errors env tr = 0)) \<and>
         (attempted \<longrightarrow> fix_set \<and> table_errors env tr = 0) \<and>
         table_errors env tr = word_of_nat (errors_found env tr) \<and>
         (errors_found env tr < 2 ^ 64 \<longrightarrow>
            (table_errors env tr = 0) =
              (\<forall>ev\<in>set (table_checks tr). check_errors env ev = 0)) \<and>
         rewritten =
           (attempted \<and>
            (\<exists>e. chert_version_read_and_check env path = Some e \<and> is_database_error e)) \<and>
         filter is_repair tr =
           (if attempted
            then ChertVersionReadAndCheck path #
                   (if rewritten then [ChertVersionCreate path] else [])
            else []))"
proof -
  let ?tr = "snd (check env path opts out)"
  let ?cond = "opts AND DBCHECK_FIX env \<noteq> 0 \<and> table_errors env ?tr = 0 \<and>
      (\<forall>e. chert_database_open env path = Inl e \<longrightarrow> is_xapian_error e) \<and>
      (\<forall>ev\<in>set (table_checks ?tr). \<not> check_threw env ev)"
  note rep = chert_check_repairs [OF assms, where opts = opts and out = out]
  have att: "(ChertVersionReadAndCheck path \<in> set ?tr) = ?cond"
  proof -
    have "(ChertVersionReadAndCheck path \<in> set ?tr) =
        (ChertVersionReadAndCheck path \<in> set (filter is_repair ?tr))"
      by simp
    also have "\<dots> = ?cond"
      unfolding rep by simp
    finally show ?thesis .
  qed
  have rew: "(ChertVersionCreate path \<in> set ?tr) =
      (?cond \<and> (\<exists>e. chert_version_read_and_check env path = Some e \<and> is_database_error e))"
  proof -
    have "(ChertVersionCreate path \<in> set ?tr) =
        (ChertVersionCreate path \<in> set (filter is_repair ?tr))"
      by simp
    also have "\<dots> =
        (?cond \<and> (\<exists>e. chert_version_read_and_check env path = Some e \<and> is_database_error e))"
      unfolding rep by (cases "chert_version_read_and_check env path") simp_all
    finally show ?thesis .
  qed
  have flt: "filter is_repair ?tr =
      (if ?cond
       then ChertVersionReadAndCheck path #
              (if ?cond \<and>
                  (\<exists>e. chert_version_read_and_check env path = Some e \<and> is_database_error e)
               then [ChertVersionCreate path] else [])
       else [])"
    unfolding rep by (simp split: option.split)
  show ?thesis
    unfolding Let_def att rew
  proof (intro conjI impI)
    show "filter is_repair ?tr =
      (if ?cond
       then ChertVersionReadAndCheck path #
              (if ?cond \<and>
                  (\<exists>e. chert_version_read_and_check env path = Some e \<and> is_database_error e)
               then [ChertVersionCreate path] else [])
       else [])"
      by (rule flt)
    show "table_errors env ?tr = word_of_nat (errors_found env ?tr)"
      by (rule table_errors_found)
    show "(table_errors env ?tr = 0) =
        (\<forall>ev\<in>set (table_checks ?tr). check_errors env ev = 0)"
      if "errors_found env ?tr < 2 ^ 64"
      using table_errors_zero [OF that] by (simp only: errors_found_zero)
  qed simp_all
qed

theorem chert_repair_iff_witness:
  "stat_ok env_open_fails (''db'' @ ''/iamchert'') \<and> has_chert_backend env_open_fails \<and>
   fst (check env_open_fails ''db'' 16 False) = Inr 1 \<and>
   ChertVersionReadAndCheck ''db'' \<in> set (snd (check env_open_fails ''db'' 16 False)) \<and>
   ChertVersionCreate ''db'' \<notin> set (snd (check env_open_fails ''db'' 16 False)) \<and>
   ChertVersionCreate ''db'' \<in> set (snd (check env_bad_version ''db'' 16 False)) \<and>
   fst (check env_postlist_errors ''db'' 16 False) = Inr 2 \<and>
   ChertVersionReadAndCheck ''db'' \<notin> set (snd (check env_postlist_errors ''db'' 16 False)) \<and>
   filter is_repair (snd (check env_postlist_errors ''db'' 16 False)) = [] \<and>
   filter is_repair (snd (check env_chert_bare ''db'' 0 False)) = [] \<and>
   fst (check env_count_wraps ''db'' 16 False) = Inr 0 \<and>
   table_errors env_count_wraps (snd (check env_count_wraps ''db'' 16 False)) = 0 \<and>
   ChertVersionReadAndCheck ''db'' \<in> set (snd (check env_count_wraps ''db'' 16 False))"
proof -
  have h1: "stat_ok env_open_fails (''db'' @ ''/iamchert'')"
    "stat_ok env_bad_version (''db'' @ ''/iamchert'')"
    "stat_ok env_postlist_errors (''db'' @ ''/iamchert'')"
    "stat_ok env_chert_bare (''db'' @ ''/iamchert'')"
    "stat_ok env_count_wraps (''db'' @ ''/iamchert'')"
    by (simp_all add: env_bad_version_def env_open_fails_def env_postlist_errors_def
        env_count_wraps_def env_chert_bare_def)
  have h2: "has_chert_backend env_open_fails" "has_chert_backend env_bad_version"
    "has_chert_backend env_postlist_errors" "has_chert_backend env_chert_bare"
    "has_chert_backend env_count_wraps"
    by (simp_all add: env_bad_version_def env_open_fails_def env_postlist_errors_def
        env_count_wraps_def env_chert_bare_def env0_def)
  have fx: "DBCHECK_FIX env_open_fails = 16" "DBCHECK_FIX env_bad_version = 16"
    "DBCHECK_FIX env_postlist_errors = 16" "DBCHECK_FIX env_chert_bare = 16"
    "DBCHECK_FIX env_count_wraps = 16"
    by (simp_all add: env_bad_version_def env_open_fails_def env_postlist_errors_def
        env_count_wraps_def env_chert_bare_def env0_def)
  have opn: "chert_database_open env_open_fails ''db'' = Inl (DatabaseError ''cannot open'')"
    "chert_database_open env_bad_version ''db'' = Inl (DatabaseError ''cannot open'')"
    "chert_database_open env_postlist_errors ''db'' = Inr (5, 7)"
    "chert_database_open env_chert_bare ''db'' = Inr (5, 7)"
    "chert_database_open env_count_wraps ''db'' = Inr (5, 7)"
    by (simp_all add: env_bad_version_def env_open_fails_def env_postlist_errors_def
        env_count_wraps_def env_chert_bare_def env0_def)
  have tbl: "check_chert_table env_open_fails t f r opts v l b =
      Inr (0, v, case r of None \<Rightarrow> 0 | Some x \<Rightarrow> x)"
    "check_chert_table env_bad_version t f r opts v l b =
      Inr (0, v, case r of None \<Rightarrow> 0 | Some x \<Rightarrow> x)"
    "check_chert_table env_chert_bare t f r opts v l b =
      Inr (0, v, case r of None \<Rightarrow> 0 | Some x \<Rightarrow> x)"
    "check_chert_table env_postlist_errors t f r opts v l b =
      Inr (if t = ''postlist'' then 2 else 0, v, case r of None \<Rightarrow> 0 | Some x \<Rightarrow> x)"
    "check_chert_table env_count_wraps t f r opts v l b =
      Inr (if t = ''record'' then - 1 else if t = ''postlist'' then 1 else 0, v,
           case r of None \<Rightarrow> 0 | Some x \<Rightarrow> x)"
    for t f r opts v l b
    by (simp_all add: env_bad_version_def env_open_fails_def env_postlist_errors_def
        env_count_wraps_def env_chert_bare_def env0_def)
  have rac: "chert_version_read_and_check env_open_fails ''db'' = None"
    "chert_version_read_and_check env_bad_version ''db'' = Some (DatabaseError ''bad version file'')"
    "chert_version_read_and_check env_count_wraps ''db'' = None"
    by (simp_all add: env_bad_version_def env_open_fails_def env_count_wraps_def
        env_chert_bare_def env0_def)
  show ?thesis
    using
      chert_repair_iff [OF h1(1) h2(1), where opts = 16 and out = False]
      chert_repair_iff [OF h1(2) h2(2), where opts = 16 and out = False]
      chert_repair_iff [OF h1(3) h2(3), where opts = 16 and out = False]
      chert_repair_iff [OF h1(4) h2(4), where opts = 0 and out = False]
      chert_repair_iff [OF h1(5) h2(5), where opts = 16 and out = False]
      h1(1) h2(1)
    by (simp add: Let_def fx opn tbl rac env_open_fails_fix_run env_bad_version_run
        env_postlist_errors_run env_chert_bare_quiet_run env_count_wraps_run)
qed

section \<open>The changes files of a glass database\<close>

lemma changes_files_0 [simp]: "changes_files path 0 = []"
  by (simp add: changes_files_def)

lemma changes_files_step:
  fixes r :: revision
  assumes "r \<noteq> 0"
  shows "changes_files path (unat r) =
    (path @ ''/changes'' @ str (unat r)) # changes_files path (unat (r - 1))"
proof -
  from assms have pos: "0 < unat r"
    by (simp add: unat_gt_0)
  from assms have dec: "unat (r - 1) = unat r - 1"
    by (simp add: unat_minus_one)
  from pos have "[1..<Suc (unat r)] = [1..<Suc (unat r - 1)] @ [unat r]"
    by (cases "unat r") simp_all
  then show ?thesis
    by (simp add: changes_files_def dec)
qed

lemma until_throw_prefix: "prefix (until_throw env fs) fs"
  by (induction fs) simp_all

lemma until_throw_all:
  "\<forall>f\<in>set fs. glass_changes_check env f = None \<Longrightarrow> until_throw env fs = fs"
  by (induction fs) simp_all

lemma changes_loop_0 [simp]: "changes_loop env path 0 s = (None, s)"
  by (simp add: changes_loop.simps [of env path 0 s])

lemma changes_loop_trace:
  "trace (snd (changes_loop env path r s)) =
     trace s @ map GlassChangesCheck
       (until_throw env (filter (file_exists env) (changes_files path (unat r))))"
proof (induction env path r s rule: changes_loop.induct)
  case (1 env path r s)
  show ?case
  proof (cases "r = 0")
    case True
    then show ?thesis
      by simp
  next
    case False
    let ?f = "path @ ''/changes'' @ str (unat r)"
    note files = changes_files_step [OF False, of path]
    show ?thesis
    proof (cases "file_exists env ?f")
      case ex: True
      show ?thesis
      proof (cases "glass_changes_check env ?f")
        case None
        from "1.IH"(1) [OF False refl ex None] show ?thesis
          using False ex None by (simp add: changes_loop.simps [of env path r s] files)
      next
        case (Some e)
        then show ?thesis
          using False ex by (simp add: changes_loop.simps [of env path r s] files)
      qed
    next
      case nex: False
      from "1.IH"(2) [OF False refl nex] show ?thesis
        using False nex by (simp add: changes_loop.simps [of env path r s] files)
    qed
  qed
qed

lemma changes_loop_frame:
  "errors (snd (changes_loop env path r s)) = errors s \<and>
   doclens (snd (changes_loop env path r s)) = doclens s"
proof (induction env path r s rule: changes_loop.induct)
  case (1 env path r s)
  show ?case
  proof (cases "r = 0")
    case True
    then show ?thesis
      by simp
  next
    case False
    let ?f = "path @ ''/changes'' @ str (unat r)"
    show ?thesis
    proof (cases "file_exists env ?f")
      case ex: True
      show ?thesis
      proof (cases "glass_changes_check env ?f")
        case None
        from "1.IH"(1) [OF False refl ex None] show ?thesis
          using False ex None by (simp add: changes_loop.simps [of env path r s])
      next
        case (Some e)
        then show ?thesis
          using False ex by (simp add: changes_loop.simps [of env path r s])
      qed
    next
      case nex: False
      from "1.IH"(2) [OF False refl nex] show ?thesis
        using False nex by (simp add: changes_loop.simps [of env path r s])
    qed
  qed
qed

section \<open>The structure of a whole-database glass check\<close>

lemma glass_call_simps [simp]:
  "is_table_check (glass_call path g opts out l t s)"
  "check_name (glass_call path g opts out l t s) = t"
  "check_last_docid (glass_call path g opts out l t s) = l"
  "check_doclens (glass_call path g opts out l t s) = doclens s"
  "check_rev_context (glass_call path g opts out l t s) = Some (gv_revision g)"
  "\<not> is_reserve_call (glass_call path g opts out l t s)"
  "\<not> is_out (glass_call path g opts out l t s)"
  "\<not> is_repair (glass_call path g opts out l t s)"
  "\<not> is_changes_check (glass_call path g opts out l t s)"
  by (simp_all add: glass_call_def)

lemma glass_step_trace:
  "trace (snd (glass_table_step env path g opts out l t s)) =
     trace s @ [glass_call path g opts out l t s]"
  by (simp add: glass_table_step_def glass_call_def Let_def split: sum.split prod.split)

lemma glass_step_errors:
  "errors (snd (glass_table_step env path g opts out l t s)) =
     errors s + check_errors env (glass_call path g opts out l t s)"
  by (simp add: glass_table_step_def glass_call_def Let_def split: sum.split prod.split)

lemma glass_loop_Cons:
  "glass_table_loop env path g opts out l (t # ts) s =
     (if fst (glass_table_step env path g opts out l t s) = None
      then glass_table_loop env path g opts out l ts (snd (glass_table_step env path g opts out l t s))
      else glass_table_step env path g opts out l t s)"
  by (simp split: prod.split option.split)

lemma glass_loop_invariant:
  assumes "I s"
    and "\<And>t s. t \<in> set ts \<Longrightarrow> I s \<Longrightarrow> I (snd (glass_table_step env path g opts out l t s))"
  shows "I (snd (glass_table_loop env path g opts out l ts s))"
  using assms
proof (induction ts arbitrary: s)
  case Nil
  then show ?case by simp
next
  case (Cons t ts)
  let ?step = "glass_table_step env path g opts out l t s"
  have step: "I (snd ?step)"
    using Cons.prems by simp
  show ?case
  proof (cases "fst ?step = None")
    case True
    have "I (snd (glass_table_loop env path g opts out l ts (snd ?step)))"
      using step Cons.prems(2) by (intro Cons.IH) simp_all
    then show ?thesis
      using True by (simp add: glass_loop_Cons del: glass_table_loop.simps)
  next
    case False
    then have stop: "(fst ?step = None) = False"
      by simp
    show ?thesis
      using step by (simp add: glass_loop_Cons stop del: glass_table_loop.simps)
  qed
qed

lemma glass_loop_errors:
  "errors (snd (glass_table_loop env path g opts out l ts s)) + table_errors env (trace s) =
     errors s + table_errors env (trace (snd (glass_table_loop env path g opts out l ts s)))"
proof -
  let ?I = "\<lambda>s'::st. errors s' + table_errors env (trace s) =
      errors s + table_errors env (trace s')"
  have "?I (snd (glass_table_loop env path g opts out l ts s))"
    by (rule glass_loop_invariant) (simp_all add: glass_step_trace glass_step_errors)
  then show ?thesis .
qed

lemma glass_loop_filter:
  assumes "\<And>e. is_table_check e \<Longrightarrow> \<not> P e"
  shows "filter P (trace (snd (glass_table_loop env path g opts out l ts s))) = filter P (trace s)"
proof -
  have call: "\<not> P (glass_call path g opts out l t s)" for t s
    by (rule assms) simp
  let ?I = "\<lambda>s'::st. filter P (trace s') = filter P (trace s)"
  have "?I (snd (glass_table_loop env path g opts out l ts s))"
    by (rule glass_loop_invariant) (simp_all add: glass_step_trace call)
  then show ?thesis .
qed

lemma glass_loop_prefix:
  "prefix (trace s) (trace (snd (glass_table_loop env path g opts out l ts s)))"
proof -
  let ?I = "\<lambda>s'::st. prefix (trace s) (trace s')"
  have "?I (snd (glass_table_loop env path g opts out l ts s))"
    by (rule glass_loop_invariant) (simp_all add: glass_step_trace)
  then show ?thesis .
qed

lemma glass_open_cases [case_names foreign failed opened]:
  obtains
    (foreign) e where "database_open env path = Some e" and "\<not> is_xapian_error e"
      and "glass_open env path out s0 = (Some e, log (DatabaseOpen path) s0)"
  | (failed) e where "database_open env path = Some e" and "is_xapian_error e"
      and "glass_open env path out s0 =
        (None, (emit out (msg_open_failed env e) (log (DatabaseOpen path) s0))
                 \<lparr>errors := errors s0 + 1\<rparr>)"
  | (opened) "database_open env path = None"
      and "glass_open env path out s0 = (None, log (DatabaseOpen path) s0)"
proof (cases "database_open env path")
  case None
  then show ?thesis
    by (intro opened) (simp_all add: glass_open_def Let_def)
next
  case (Some e)
  show ?thesis
  proof (cases "is_xapian_error e")
    case True
    with Some show ?thesis
      by (intro failed [of e]) (simp_all add: glass_open_def Let_def)
  next
    case False
    with Some show ?thesis
      by (intro foreign [of e]) (simp_all add: glass_open_def Let_def)
  qed
qed

lemma glass_open_state:
  assumes "glass_open env path out init_st = (None, s1)"
  shows "trace s1 = DatabaseOpen path #
           (case database_open env path of
              None \<Rightarrow> []
            | Some e \<Rightarrow> if out then [Out (msg_open_failed env e)] else [])"
    and "errors s1 = (case database_open env path of None \<Rightarrow> 0 | Some e \<Rightarrow> 1)"
    and "doclens s1 = empty_vec"
    and "\<And>e. database_open env path = Some e \<Longrightarrow> is_xapian_error e"
proof -
  show "trace s1 = DatabaseOpen path #
           (case database_open env path of
              None \<Rightarrow> []
            | Some e \<Rightarrow> if out then [Out (msg_open_failed env e)] else [])"
    using assms by (cases rule: glass_open_cases [of env path out init_st]) auto
  show "errors s1 = (case database_open env path of None \<Rightarrow> 0 | Some e \<Rightarrow> 1)"
    using assms by (cases rule: glass_open_cases [of env path out init_st]) auto
  show "doclens s1 = empty_vec"
    using assms by (cases rule: glass_open_cases [of env path out init_st]) auto
  show "is_xapian_error e" if "database_open env path = Some e" for e
    using assms that by (cases rule: glass_open_cases [of env path out init_st]) auto
qed

lemma glass_check_cases
  [consumes 3, case_names open_throws version_throws changes_throws tables]:
  assumes "\<not> stat_ok env (path @ ''/iamchert'')" and "stat_ok env (path @ ''/iamglass'')"
    and "has_glass_backend env"
  obtains
    (open_throws) e where "database_open env path = Some e" and "\<not> is_xapian_error e"
      and "check env path opts0 out = (Inl e, [DatabaseOpen path])"
  | (version_throws) s1 e where "glass_open env path out init_st = (None, s1)"
      and "glass_version_read env path = Inl e"
      and "check env path opts0 out = (Inl e, trace s1 @ [GlassVersionRead path])"
  | (changes_throws) s1 v e s2 where "glass_open env path out init_st = (None, s1)"
      and "glass_version_read env path = Inr v"
      and "changes_loop env path (gv_revision v) (log (GlassVersionRead path) s1) = (Some e, s2)"
      and "check env path opts0 out = (Inl e, trace s2)"
  | (tables) s1 v s2 where "glass_open env path out init_st = (None, s1)"
      and "glass_version_read env path = Inr v"
      and "changes_loop env path (gv_revision v) (log (GlassVersionRead path) s1) = (None, s2)"
      and "check env path opts0 out =
        finish (glass_table_loop env path v (effective_opts env opts0 out) out (gv_last_docid v)
                  glass_tables (reserve_doclens env (gv_last_docid v) out s2))"
proof -
  let ?opts = "effective_opts env opts0 out"
  have chk: "check env path opts0 out = finish (check_glass_db env path ?opts out init_st)"
    using assms by (simp add: check_def Let_def)
  show ?thesis
  proof (cases rule: glass_open_cases [of env path out init_st])
    case (foreign e)
    with chk assms(3) show ?thesis
      by (intro open_throws [of e]) (simp_all add: check_glass_db_def)
  next
    case (failed e)
    then have op: "\<exists>s1. glass_open env path out init_st = (None, s1)"
      by simp
    then obtain s1 where s1: "glass_open env path out init_st = (None, s1)" ..
    show ?thesis
    proof (cases "glass_version_read env path")
      case (Inl e')
      with chk assms(3) s1 show ?thesis
        by (intro version_throws [of s1 e']) (simp_all add: check_glass_db_def Let_def)
    next
      case (Inr v)
      obtain r2 s2 where lp:
        "changes_loop env path (gv_revision v) (log (GlassVersionRead path) s1) = (r2, s2)"
        by (cases "changes_loop env path (gv_revision v) (log (GlassVersionRead path) s1)")
      show ?thesis
      proof (cases r2)
        case None
        with chk assms(3) s1 Inr lp show ?thesis
          by (intro tables [of s1 v s2]) (simp_all add: check_glass_db_def Let_def)
      next
        case (Some e')
        with chk assms(3) s1 Inr lp show ?thesis
          by (intro changes_throws [of s1 v e' s2]) (simp_all add: check_glass_db_def Let_def)
      qed
    qed
  next
    case opened
    then have op: "\<exists>s1. glass_open env path out init_st = (None, s1)"
      by simp
    then obtain s1 where s1: "glass_open env path out init_st = (None, s1)" ..
    show ?thesis
    proof (cases "glass_version_read env path")
      case (Inl e')
      with chk assms(3) s1 show ?thesis
        by (intro version_throws [of s1 e']) (simp_all add: check_glass_db_def Let_def)
    next
      case (Inr v)
      obtain r2 s2 where lp:
        "changes_loop env path (gv_revision v) (log (GlassVersionRead path) s1) = (r2, s2)"
        by (cases "changes_loop env path (gv_revision v) (log (GlassVersionRead path) s1)")
      show ?thesis
      proof (cases r2)
        case None
        with chk assms(3) s1 Inr lp show ?thesis
          by (intro tables [of s1 v s2]) (simp_all add: check_glass_db_def Let_def)
      next
        case (Some e')
        with chk assms(3) s1 Inr lp show ?thesis
          by (intro changes_throws [of s1 v e' s2]) (simp_all add: check_glass_db_def Let_def)
      qed
    qed
  qed
qed

section \<open>A concrete glass run\<close>

lemma str_digits:
  "str (Suc 0) = ''1''" "str 1 = ''1''" "str 2 = ''2''" "str 3 = ''3''" "str 12 = ''12''"
  by (simp_all add: str.simps digit_char_def)

lemma env_glass_run:
  "check env_glass ''db'' 0 False =
     (Inr 0,
      [DatabaseOpen ''db'', GlassVersionRead ''db'',
       GlassChangesCheck ''db/changes3'', GlassChangesCheck ''db/changes1'',
       CallReserveDoclens 5, Reserve 6,
       CheckGlassTable ''docdata'' ''db'' \<lparr>gv_revision = 3, gv_last_docid = 5\<rparr> 0
         \<lparr>elems = [], capacity = 6\<rparr> 5 False,
       CheckGlassTable ''termlist'' ''db'' \<lparr>gv_revision = 3, gv_last_docid = 5\<rparr> 0
         \<lparr>elems = [], capacity = 6\<rparr> 5 False,
       CheckGlassTable ''postlist'' ''db'' \<lparr>gv_revision = 3, gv_last_docid = 5\<rparr> 0
         \<lparr>elems = [], capacity = 6\<rparr> 5 False,
       CheckGlassTable ''position'' ''db'' \<lparr>gv_revision = 3, gv_last_docid = 5\<rparr> 0
         \<lparr>elems = [], capacity = 6\<rparr> 5 False,
       CheckGlassTable ''spelling'' ''db'' \<lparr>gv_revision = 3, gv_last_docid = 5\<rparr> 0
         \<lparr>elems = [], capacity = 6\<rparr> 5 False,
       CheckGlassTable ''synonym'' ''db'' \<lparr>gv_revision = 3, gv_last_docid = 5\<rparr> 0
         \<lparr>elems = [], capacity = 6\<rparr> 5 False])"
  by (simp add: run_defs changes_loop.simps str_digits env_glass_def env0_def)

section \<open>The changes pass and the version file of a glass database\<close>

lemma changes_events [simp]:
  "table_checks (map GlassChangesCheck fs) = []"
  "filter is_changes_check (map GlassChangesCheck fs) = map GlassChangesCheck fs"
  "filter is_reserve_call (map GlassChangesCheck fs) = []"
  by (induction fs) simp_all

lemma glass_pre_tables:
  assumes op: "glass_open env path out init_st = (None, s1)"
    and lp: "changes_loop env path r (log (GlassVersionRead path) s1) = (x, s2)"
  shows "table_checks (trace s2) = []"
    and "table_checks (trace (reserve_doclens env l out s2)) = []"
    and "filter is_changes_check (trace s2) =
      map GlassChangesCheck
        (until_throw env (filter (file_exists env) (changes_files path (unat r))))"
    and "filter is_changes_check (trace (reserve_doclens env l out s2)) =
      map GlassChangesCheck
        (until_throw env (filter (file_exists env) (changes_files path (unat r))))"
    and "errors (reserve_doclens env l out s2) =
      (case database_open env path of None \<Rightarrow> 0 | Some e \<Rightarrow> 1)"
    and "table_errors env (trace (reserve_doclens env l out s2)) = 0"
proof -
  let ?V = "until_throw env (filter (file_exists env) (changes_files path (unat r)))"
  have tr: "trace s2 = trace s1 @ GlassVersionRead path # map GlassChangesCheck ?V"
    using changes_loop_trace [of env path r "log (GlassVersionRead path) s1"] lp by simp
  note s1 = glass_open_state [OF op]
  show a: "table_checks (trace s2) = []"
    by (simp add: tr s1(1) split: option.split)
  have "filter is_table_check (trace (reserve_doclens env l out s2)) =
      filter is_table_check (trace s2)"
    by (rule reserve_doclens_filter) simp_all
  then show b: "table_checks (trace (reserve_doclens env l out s2)) = []"
    using a by (simp add: table_checks_def)
  show c: "filter is_changes_check (trace s2) = map GlassChangesCheck ?V"
    by (simp add: tr s1(1) split: option.split)
  have "filter is_changes_check (trace (reserve_doclens env l out s2)) =
      filter is_changes_check (trace s2)"
    by (rule reserve_doclens_filter) simp_all
  then show "filter is_changes_check (trace (reserve_doclens env l out s2)) =
      map GlassChangesCheck ?V"
    using c by simp
  have "errors s2 = errors s1"
    using changes_loop_frame [of env path r "log (GlassVersionRead path) s1"] lp by simp
  then show "errors (reserve_doclens env l out s2) =
      (case database_open env path of None \<Rightarrow> 0 | Some e \<Rightarrow> 1)"
    using s1(2) by simp
  show "table_errors env (trace (reserve_doclens env l out s2)) = 0"
    using b by (simp add: table_errors_def)
qed

lemma glass_check_changes:
  assumes "\<not> stat_ok env (path @ ''/iamchert'')" and "stat_ok env (path @ ''/iamglass'')"
    and "has_glass_backend env"
    and "glass_version_read env path = Inr v"
    and "\<forall>e. database_open env path = Some e \<longrightarrow> is_xapian_error e"
  shows "filter is_changes_check (snd (check env path opts out)) =
    map GlassChangesCheck
      (until_throw env (filter (file_exists env) (changes_files path (unat (gv_revision v)))))"
  using assms(1,2,3)
proof (cases rule: glass_check_cases [where out = out and ?opts0.0 = opts])
  case (open_throws e)
  with assms(5) show ?thesis by blast
next
  case (version_throws s1 e)
  with assms(4) show ?thesis by simp
next
  case (changes_throws s1 v' e s2)
  with assms(4) have "v' = v" by simp
  with changes_throws(4) show ?thesis
    using glass_pre_tables(3) [OF changes_throws(1,3)] by simp
next
  case (tables s1 v' s2)
  with assms(4) have v: "v' = v" by simp
  let ?s3 = "reserve_doclens env (gv_last_docid v) out s2"
  have "filter is_changes_check (trace (snd (glass_table_loop env path v
      (effective_opts env opts out) out (gv_last_docid v) glass_tables ?s3))) =
      filter is_changes_check (trace ?s3)"
    by (rule glass_loop_filter) (auto elim: is_table_check.elims)
  then show ?thesis
    using tables(4) v glass_pre_tables(4) [OF tables(1,3), where l = "gv_last_docid v"]
    by simp
qed

lemma glass_check_errors:
  assumes "\<not> stat_ok env (path @ ''/iamchert'')" and "stat_ok env (path @ ''/iamglass'')"
    and "has_glass_backend env"
    and "fst (check env path opts out) = Inr n"
  shows "n = (case database_open env path of None \<Rightarrow> 0 | Some e \<Rightarrow> 1) +
            table_errors env (snd (check env path opts out))"
  using assms(1,2,3)
proof (cases rule: glass_check_cases [where out = out and ?opts0.0 = opts])
  case (open_throws e)
  with assms(4) show ?thesis by simp
next
  case (version_throws s1 e)
  with assms(4) show ?thesis by simp
next
  case (changes_throws s1 v e s2)
  with assms(4) show ?thesis by simp
next
  case (tables s1 v s2)
  let ?s3 = "reserve_doclens env (gv_last_docid v) out s2"
  let ?lp = "glass_table_loop env path v (effective_opts env opts out) out (gv_last_docid v)
      glass_tables ?s3"
  note pre5 = glass_pre_tables(5) [OF tables(1,3), where l = "gv_last_docid v"]
  note pre6 = glass_pre_tables(6) [OF tables(1,3), where l = "gv_last_docid v"]
  from glass_loop_errors [of env path v "effective_opts env opts out" out "gv_last_docid v"
      glass_tables ?s3]
  have "errors (snd ?lp) = errors ?s3 + table_errors env (trace (snd ?lp))"
    by (simp add: pre6)
  moreover have "n = errors (snd ?lp)"
    using assms(4) tables(4) by (simp add: fst_finish split: option.splits)
  ultimately show ?thesis
    using tables(4) pre5 by simp
qed

text \<open>
  C8. In a whole-database glass check whose version file can be read, the changes files
  handed to \<open>GlassChanges::check\<close> are, in this order, those of the names
  \<open>path/changes<r>\<close> for \<open>r\<close> from the current revision down to \<open>1\<close> that exist on disk:
  always an initial part of that list, and the whole list when no check of a changes
  file throws. A revision of \<open>0\<close> visits nothing. A missing file neither stops the
  descent nor counts: the count returned is the error of a failed open plus the counts
  the table checks returned, added in \<open>size_t\<close>.
\<close>

theorem glass_changes_descending:
  assumes "\<not> stat_ok env (path @ ''/iamchert'')" and "stat_ok env (path @ ''/iamglass'')"
    and "has_glass_backend env"
    and "glass_version_read env path = Inr v"
    and "\<forall>e. database_open env path = Some e \<longrightarrow> is_xapian_error e"
  shows
    "(let tr = snd (check env path opts out);
          revisions = rev [1..<Suc (unat (gv_revision v))];
          files = filter (file_exists env) (map (\<lambda>r. path @ ''/changes'' @ str r) revisions);
          checked = filter is_changes_check tr
      in prefix checked (map GlassChangesCheck files) \<and>
         ((\<forall>f\<in>set files. glass_changes_check env f = None) \<longrightarrow>
            checked = map GlassChangesCheck files) \<and>
         (gv_revision v = 0 \<longrightarrow> checked = []) \<and>
         (fst (check env path opts out) = Inr n \<longrightarrow>
            n = (case database_open env path of None \<Rightarrow> 0 | Some e \<Rightarrow> 1) +
                table_errors env tr))"
proof -
  let ?files = "filter (file_exists env) (changes_files path (unat (gv_revision v)))"
  note chk = glass_check_changes [OF assms, where opts = opts and out = out]
  have a: "prefix (map GlassChangesCheck (until_throw env ?files)) (map GlassChangesCheck ?files)"
    by (intro map_mono_prefix until_throw_prefix)
  have b: "until_throw env ?files = ?files" if "\<forall>f\<in>set ?files. glass_changes_check env f = None"
    using that by (rule until_throw_all)
  have c: "?files = []" if "gv_revision v = 0"
    using that by simp
  have d: "n = (case database_open env path of None \<Rightarrow> 0 | Some e \<Rightarrow> 1) +
      table_errors env (snd (check env path opts out))"
    if "fst (check env path opts out) = Inr n"
    using assms(1,2,3) that by (rule glass_check_errors)
  show ?thesis
    unfolding Let_def chk changes_files_def [symmetric]
  proof (intro conjI impI)
    show "prefix (map GlassChangesCheck (until_throw env ?files)) (map GlassChangesCheck ?files)"
      by (rule a)
    show "map GlassChangesCheck (until_throw env ?files) = map GlassChangesCheck ?files"
      if "\<forall>f\<in>set ?files. glass_changes_check env f = None"
      using b [OF that] by simp
    show "map GlassChangesCheck (until_throw env ?files) = []" if "gv_revision v = 0"
      using c [OF that] by simp
    show "n = (case database_open env path of None \<Rightarrow> 0 | Some e \<Rightarrow> 1) +
        table_errors env (snd (check env path opts out))"
      if "fst (check env path opts out) = Inr n"
      using that by (rule d)
  qed
qed


theorem glass_changes_descending_witness:
  "\<not> stat_ok env_glass (''db'' @ ''/iamchert'') \<and> stat_ok env_glass (''db'' @ ''/iamglass'') \<and>
   has_glass_backend env_glass \<and>
   glass_version_read env_glass ''db'' = Inr \<lparr>gv_revision = 3, gv_last_docid = 5\<rparr> \<and>
   \<not> file_exists env_glass ''db/changes2'' \<and>
   fst (check env_glass ''db'' 0 False) = Inr 0 \<and>
   filter is_changes_check (snd (check env_glass ''db'' 0 False)) =
     [GlassChangesCheck ''db/changes3'', GlassChangesCheck ''db/changes1''] \<and>
   0 = 0 + table_errors env_glass (snd (check env_glass ''db'' 0 False))"
proof -
  have h1: "\<not> stat_ok env_glass (''db'' @ ''/iamchert'')"
    by (simp add: env_glass_def)
  have h2: "stat_ok env_glass (''db'' @ ''/iamglass'')"
    by (simp add: env_glass_def)
  have h3: "has_glass_backend env_glass"
    by (simp add: env_glass_def env0_def)
  have h4: "glass_version_read env_glass ''db'' = Inr \<lparr>gv_revision = 3, gv_last_docid = 5\<rparr>"
    by (simp add: env_glass_def env0_def)
  have h5: "\<forall>e. database_open env_glass ''db'' = Some e \<longrightarrow> is_xapian_error e"
    by (simp add: env_glass_def env0_def)
  have h6: "fst (check env_glass ''db'' 0 False) = Inr 0"
    by (simp add: env_glass_run)
  have h7: "file_exists env_glass p = (p = ''db/changes3'' \<or> p = ''db/changes1'')" for p
    by (simp add: env_glass_def)
  have h8: "glass_changes_check env_glass f = None" "database_open env_glass p = None" for f p
    by (simp_all add: env_glass_def env0_def)
  have h9: "[Suc 0..<4] = [Suc 0, 2, 3]"
    by (simp add: upt_rec)
  show ?thesis
    using glass_changes_descending [OF h1 h2 h3 h4 h5, where opts = 0 and out = False and n = 0]
      h1 h2 h3 h4 h6
    by (simp add: Let_def h7 h8 h9 str_digits)
qed

lemma glass_check_version_prefix:
  assumes "\<not> stat_ok env (path @ ''/iamchert'')" and "stat_ok env (path @ ''/iamglass'')"
    and "has_glass_backend env"
    and "fst (check env path opts out) = Inr n"
  shows "prefix
      (DatabaseOpen path #
         (case database_open env path of
            None \<Rightarrow> []
          | Some e' \<Rightarrow> if out then [Out (msg_open_failed env e')] else []) @
         [GlassVersionRead path])
      (snd (check env path opts out))"
  using assms(1,2,3)
proof (cases rule: glass_check_cases [where out = out and ?opts0.0 = opts])
  case (open_throws e)
  with assms(4) show ?thesis by simp
next
  case (version_throws s1 e)
  with assms(4) show ?thesis by simp
next
  case (changes_throws s1 v e s2)
  with assms(4) show ?thesis by simp
next
  case (tables s1 v s2)
  let ?p = "DatabaseOpen path #
      (case database_open env path of
         None \<Rightarrow> []
       | Some e' \<Rightarrow> if out then [Out (msg_open_failed env e')] else []) @
      [GlassVersionRead path]"
  let ?s3 = "reserve_doclens env (gv_last_docid v) out s2"
  let ?lp = "glass_table_loop env path v (effective_opts env opts out) out (gv_last_docid v)
      glass_tables ?s3"
  have "trace s2 = ?p @ map GlassChangesCheck
      (until_throw env (filter (file_exists env) (changes_files path (unat (gv_revision v)))))"
    using changes_loop_trace [of env path "gv_revision v" "log (GlassVersionRead path) s1"]
      tables(3) glass_open_state(1) [OF tables(1)]
    by simp
  then have "prefix ?p (trace s2)"
    by simp
  also have "prefix (trace s2) (trace ?s3)"
    by (rule reserve_doclens_prefix)
  also have "prefix (trace ?s3) (trace (snd ?lp))"
    by (rule glass_loop_prefix)
  finally show ?thesis
    using tables(4) by simp
qed

text \<open>
  C10. In a whole-database glass check, \<open>version_file.read()\<close> is not guarded: when it
  throws, after an open that succeeded or failed with a \<open>Xapian::Error\<close>, \<open>check\<close> ends
  with that exception and returns no count, and the trace ends with the attempt to read
  the version file, so that no changes file is checked, \<open>reserve_doclens\<close> is not called
  and no table is checked. The failed open just before it is tolerated: when \<open>check\<close>
  returns after such a failure, the version file was read after it and the count is one
  plus the counts the table checks returned, added in \<open>size_t\<close>.
\<close>

theorem glass_version_failure_propagates:
  assumes "\<not> stat_ok env (path @ ''/iamchert'')" and "stat_ok env (path @ ''/iamglass'')"
    and "has_glass_backend env"
  shows
    "(let tr = snd (check env path opts out);
          opened =
            DatabaseOpen path #
              (case database_open env path of
                 None \<Rightarrow> []
               | Some e' \<Rightarrow> if out then [Out (msg_open_failed env e')] else [])
      in ((\<forall>e'. database_open env path = Some e' \<longrightarrow> is_xapian_error e') \<and>
          glass_version_read env path = Inl e \<longrightarrow>
            check env path opts out = (Inl e, opened @ [GlassVersionRead path]) \<and>
            filter is_changes_check tr = [] \<and> table_checks tr = [] \<and>
            filter is_reserve_call tr = []) \<and>
         (database_open env path = Some e' \<and> is_xapian_error e' \<and>
          fst (check env path opts out) = Inr n \<longrightarrow>
            prefix (opened @ [GlassVersionRead path]) tr \<and> n = 1 + table_errors env tr))"
proof -
  let ?tr = "snd (check env path opts out)"
  let ?opened = "DatabaseOpen path #
      (case database_open env path of
         None \<Rightarrow> []
       | Some e' \<Rightarrow> if out then [Out (msg_open_failed env e')] else [])"
  have a: "check env path opts out = (Inl e, ?opened @ [GlassVersionRead path])"
    if "(\<forall>e'. database_open env path = Some e' \<longrightarrow> is_xapian_error e') \<and>
      glass_version_read env path = Inl e"
    using assms
  proof (cases rule: glass_check_cases [where out = out and ?opts0.0 = opts])
    case (open_throws e)
    with that show ?thesis by blast
  next
    case (version_throws s1 e'')
    with that have "e'' = e" by simp
    with version_throws(3) glass_open_state(1) [OF version_throws(1)] show ?thesis
      by simp
  next
    case (changes_throws s1 v e s2)
    with that show ?thesis by simp
  next
    case (tables s1 v s2)
    with that show ?thesis by simp
  qed
  have b: "filter is_changes_check ?tr = [] \<and> table_checks ?tr = [] \<and>
      filter is_reserve_call ?tr = []"
    if "(\<forall>e'. database_open env path = Some e' \<longrightarrow> is_xapian_error e') \<and>
      glass_version_read env path = Inl e"
    unfolding a [OF that] by (simp split: option.split)
  have c: "prefix (?opened @ [GlassVersionRead path]) ?tr"
    if "database_open env path = Some e' \<and> is_xapian_error e' \<and>
      fst (check env path opts out) = Inr n"
  proof -
    from that have "fst (check env path opts out) = Inr n"
      by blast
    with assms have "prefix
        (DatabaseOpen path #
           (case database_open env path of
              None \<Rightarrow> []
            | Some e' \<Rightarrow> if out then [Out (msg_open_failed env e')] else []) @
           [GlassVersionRead path]) ?tr"
      by (rule glass_check_version_prefix)
    then show ?thesis
      by simp
  qed
  have d: "n = 1 + table_errors env ?tr"
    if "database_open env path = Some e' \<and> is_xapian_error e' \<and>
      fst (check env path opts out) = Inr n"
  proof -
    from that have r: "fst (check env path opts out) = Inr n"
      and o: "database_open env path = Some e'"
      by blast+
    from glass_check_errors [OF assms r] o show ?thesis
      by simp
  qed
  show ?thesis
    unfolding Let_def
  proof (intro conjI impI)
    assume h: "(\<forall>e'. database_open env path = Some e' \<longrightarrow> is_xapian_error e') \<and>
      glass_version_read env path = Inl e"
    show "check env path opts out = (Inl e, ?opened @ [GlassVersionRead path])"
      using h by (rule a)
    show "filter is_changes_check ?tr = []"
      using b [OF h] by blast
    show "table_checks ?tr = []"
      using b [OF h] by blast
    show "filter is_reserve_call ?tr = []"
      using b [OF h] by blast
  next
    assume h: "database_open env path = Some e' \<and> is_xapian_error e' \<and>
      fst (check env path opts out) = Inr n"
    show "prefix (?opened @ [GlassVersionRead path]) ?tr"
      using h by (rule c)
    show "n = 1 + table_errors env ?tr"
      using h by (rule d)
  qed
qed


lemma env_glass_open_fails_run:
  "fst (check env_glass_open_fails ''db'' 0 False) = Inr 1"
  by (simp add: run_defs changes_loop.simps str_digits env_glass_open_fails_def env_glass_def
      env0_def)

theorem glass_version_failure_propagates_witness:
  "\<not> stat_ok env_glass_no_version (''db'' @ ''/iamchert'') \<and>
   stat_ok env_glass_no_version (''db'' @ ''/iamglass'') \<and>
   has_glass_backend env_glass_no_version \<and>
   glass_version_read env_glass_no_version ''db'' = Inl (DatabaseError ''no version file'') \<and>
   database_open env_glass_no_version ''db'' = Some (DatabaseError ''cannot open'') \<and>
   check env_glass_no_version ''db'' 0 True =
     (Inl (DatabaseError ''no version file''),
      [DatabaseOpen ''db'',
       Out (msg_open_failed env_glass_no_version (DatabaseError ''cannot open'')),
       GlassVersionRead ''db'']) \<and>
   database_open env_glass_open_fails ''db'' = Some (DatabaseError ''cannot open'') \<and>
   fst (check env_glass_open_fails ''db'' 0 False) = Inr 1 \<and>
   prefix [DatabaseOpen ''db'', GlassVersionRead ''db'']
     (snd (check env_glass_open_fails ''db'' 0 False)) \<and>
   1 = 1 + table_errors env_glass_open_fails (snd (check env_glass_open_fails ''db'' 0 False))"
proof -
  have h1: "\<not> stat_ok env_glass_no_version (''db'' @ ''/iamchert'')"
    "\<not> stat_ok env_glass_open_fails (''db'' @ ''/iamchert'')"
    by (simp_all add: env_glass_no_version_def env_glass_open_fails_def env_glass_def)
  have h2: "stat_ok env_glass_no_version (''db'' @ ''/iamglass'')"
    "stat_ok env_glass_open_fails (''db'' @ ''/iamglass'')"
    by (simp_all add: env_glass_no_version_def env_glass_open_fails_def env_glass_def)
  have h3: "has_glass_backend env_glass_no_version" "has_glass_backend env_glass_open_fails"
    by (simp_all add: env_glass_no_version_def env_glass_open_fails_def env_glass_def env0_def)
  have h4: "glass_version_read env_glass_no_version ''db'' = Inl (DatabaseError ''no version file'')"
    by (simp add: env_glass_no_version_def)
  have h5: "database_open env_glass_no_version ''db'' = Some (DatabaseError ''cannot open'')"
    "database_open env_glass_open_fails ''db'' = Some (DatabaseError ''cannot open'')"
    by (simp_all add: env_glass_no_version_def env_glass_open_fails_def)
  show ?thesis
    using
      glass_version_failure_propagates [OF h1(1) h2(1) h3(1), where opts = 0 and out = True
        and e = "DatabaseError ''no version file''" and e' = "DatabaseError ''cannot open''"
        and n = 0]
      glass_version_failure_propagates [OF h1(2) h2(2) h3(2), where opts = 0 and out = False
        and e = "DatabaseError ''no version file''" and e' = "DatabaseError ''cannot open''"
        and n = 1]
      h1(1) h2(1) h3(1) h4 h5 env_glass_open_fails_run
    by (simp add: Let_def)
qed

section \<open>Resolving a single table\<close>

lemma endswith_suffix: "endswith s suf = suffix suf s"
proof
  assume "endswith s suf"
  then have "s = take (length s - length suf) s @ suf"
    by (simp add: endswith_def) (metis append_take_drop_id)
  then show "suffix suf s"
    unfolding suffix_def by (rule exI)
next
  assume "suffix suf s"
  then obtain zs where "s = zs @ suf"
    unfolding suffix_def ..
  then show "endswith s suf"
    by (simp add: endswith_def)
qed

lemma endswith_char_suffix: "endswith_char s c = suffix [c] s"
proof
  assume "endswith_char s c"
  then have "s = butlast s @ [c]"
    by (simp add: endswith_char_def) (metis append_butlast_last_id)
  then show "suffix [c] s"
    unfolding suffix_def by (rule exI)
next
  assume "suffix [c] s"
  then obtain zs where "s = zs @ [c]"
    unfolding suffix_def ..
  then show "endswith_char s c"
    by (simp add: endswith_char_def)
qed

lemma trim_suffix_cases [case_names dot chert glass none]:
  obtains
    (dot) filename where "suffix ''.'' path" and "path = filename @ ''.''"
      and "trim_suffix path = (filename, UNKNOWN)"
  | (chert) filename where "\<not> suffix ''.'' path" and "suffix ''.DB'' path"
      and "path = filename @ ''.DB''" and "trim_suffix path = (filename, CHERT)"
  | (glass) filename where "\<not> suffix ''.'' path" and "\<not> suffix ''.DB'' path"
      and "suffix ''.glass'' path" and "path = filename @ ''.glass''"
      and "trim_suffix path = (filename, GLASS)"
  | (none) "\<not> suffix ''.'' path" and "\<not> suffix ''.DB'' path" and "\<not> suffix ''.glass'' path"
      and "trim_suffix path = (path, UNKNOWN)"
proof (cases "suffix ''.'' path")
  case True
  then obtain f where f: "path = f @ ''.''"
    unfolding suffix_def ..
  with True show ?thesis
    by (intro dot [of f]) (simp_all add: trim_suffix_def endswith_char_suffix)
next
  case nd: False
  show ?thesis
  proof (cases "suffix ''.DB'' path")
    case True
    then obtain f where f: "path = f @ ''.DB''"
      unfolding suffix_def ..
    with nd True show ?thesis
      by (intro chert [of f]) (simp_all add: trim_suffix_def endswith_char_suffix endswith_suffix)
  next
    case ndb: False
    show ?thesis
    proof (cases "suffix ''.glass'' path")
      case True
      then obtain f where f: "path = f @ ''.glass''"
        unfolding suffix_def ..
      with nd ndb True show ?thesis
        by (intro glass [of f])
          (simp_all add: trim_suffix_def endswith_char_suffix endswith_suffix)
    next
      case False
      with nd ndb show ?thesis
        by (intro none) (simp_all add: trim_suffix_def endswith_char_suffix endswith_suffix)
    qed
  qed
qed

lemma check_bare:
  assumes "\<not> stat_ok env (path @ ''/iamchert'')" and "\<not> stat_ok env (path @ ''/iamglass'')"
  shows "check env path opts out =
    finish (check_single_table env path (effective_opts env opts out) out init_st)"
  using assms by (simp add: check_def Let_def)

lemma check_single_resolved:
  assumes "\<not> stat_ok env (path @ ''/iamflint'')" and "\<not> stat_ok env (path @ ''/iambrass'')"
    and "\<not> stat_ok env (path @ ''/record_DB'')"
    and "trim_suffix path = (filename, backend0)"
  shows "check_single_table env path opts out s =
    (case infer_backend env filename backend0 of
       Inl e \<Rightarrow> (Some e, s)
     | Inr UNKNOWN \<Rightarrow> (None, s)
     | Inr CHERT \<Rightarrow>
         check_bare_chert env filename (dir_of filename) (tablename_of filename) opts out s
     | Inr GLASS \<Rightarrow> check_bare_glass env (dir_of filename) (tablename_of filename) opts out s)"
  using assms
  by (simp add: check_single_table_def Let_def split: sum.split backend.split)

section \<open>Stripping the suffix and probing for the backend\<close>

text \<open>
  C7. For a path without a whole-database or retired-format marker, at most one suffix
  is trimmed, the first that applies of: a trailing \<open>.\<close> (backend still unknown),
  \<open>.DB\<close> (chert), \<open>.glass\<close> (glass); the path is the trimmed name followed by exactly that
  suffix. With the backend fixed by the suffix the table is checked as such. With the
  backend unknown, \<open><base>.DB\<close> is probed first and wins, then \<open><base>.glass\<close>; when
  neither exists \<open>check\<close> throws \<open>DatabaseError\<close> with the message
  \<open>Not a Xapian database or database table\<close>, having done nothing else.
\<close>

theorem bare_table_resolution:
  assumes "\<not> stat_ok env (path @ ''/iamchert'')" and "\<not> stat_ok env (path @ ''/iamglass'')"
    and "\<not> stat_ok env (path @ ''/iamflint'')" and "\<not> stat_ok env (path @ ''/iambrass'')"
    and "\<not> stat_ok env (path @ ''/record_DB'')"
  shows
    "(let filename = fst (trim_suffix path);
          backend = snd (trim_suffix path);
          opts' = effective_opts env opts out;
          as_chert =
            finish (check_bare_chert env filename (dir_of filename) (tablename_of filename)
                      opts' out init_st);
          as_glass =
            finish (check_bare_glass env (dir_of filename) (tablename_of filename)
                      opts' out init_st)
      in (suffix ''.'' path \<longrightarrow> path = filename @ ''.'' \<and> backend = UNKNOWN) \<and>
         (\<not> suffix ''.'' path \<and> suffix ''.DB'' path \<longrightarrow>
            path = filename @ ''.DB'' \<and> backend = CHERT \<and>
            check env path opts out = as_chert) \<and>
         (\<not> suffix ''.'' path \<and> \<not> suffix ''.DB'' path \<and> suffix ''.glass'' path \<longrightarrow>
            path = filename @ ''.glass'' \<and> backend = GLASS \<and>
            check env path opts out = as_glass) \<and>
         (\<not> suffix ''.'' path \<and> \<not> suffix ''.DB'' path \<and> \<not> suffix ''.glass'' path \<longrightarrow>
            filename = path \<and> backend = UNKNOWN) \<and>
         (backend = UNKNOWN \<and> stat_ok env (filename @ ''.DB'') \<longrightarrow>
            check env path opts out = as_chert) \<and>
         (backend = UNKNOWN \<and> \<not> stat_ok env (filename @ ''.DB'') \<and>
          stat_ok env (filename @ ''.glass'') \<longrightarrow>
            check env path opts out = as_glass) \<and>
         (backend = UNKNOWN \<and> \<not> stat_ok env (filename @ ''.DB'') \<and>
          \<not> stat_ok env (filename @ ''.glass'') \<longrightarrow>
            check env path opts out =
              (Inl (DatabaseError ''Not a Xapian database or database table''), [])))"
proof -
  let ?f = "fst (trim_suffix path)"
  let ?b = "snd (trim_suffix path)"
  let ?opts = "effective_opts env opts out"
  let ?chert = "finish (check_bare_chert env ?f (dir_of ?f) (tablename_of ?f) ?opts out init_st)"
  let ?glass = "finish (check_bare_glass env (dir_of ?f) (tablename_of ?f) ?opts out init_st)"
  have res: "check env path opts out =
      finish (case infer_backend env ?f ?b of
         Inl e \<Rightarrow> (Some e, init_st)
       | Inr UNKNOWN \<Rightarrow> (None, init_st)
       | Inr CHERT \<Rightarrow> check_bare_chert env ?f (dir_of ?f) (tablename_of ?f) ?opts out init_st
       | Inr GLASS \<Rightarrow> check_bare_glass env (dir_of ?f) (tablename_of ?f) ?opts out init_st)"
    using check_bare [OF assms(1,2)] check_single_resolved [OF assms(3,4,5) surjective_pairing]
    by simp
  have fixed_chert: "check env path opts out = ?chert" if "?b = CHERT"
    using that by (simp add: res infer_backend_def)
  have fixed_glass: "check env path opts out = ?glass" if "?b = GLASS"
    using that by (simp add: res infer_backend_def)
  have probe_chert: "check env path opts out = ?chert"
    if "?b = UNKNOWN \<and> stat_ok env (?f @ ''.DB'')"
    using that by (simp add: res infer_backend_def)
  have probe_glass: "check env path opts out = ?glass"
    if "?b = UNKNOWN \<and> \<not> stat_ok env (?f @ ''.DB'') \<and> stat_ok env (?f @ ''.glass'')"
    using that by (simp add: res infer_backend_def)
  have probe_none: "check env path opts out =
      (Inl (DatabaseError ''Not a Xapian database or database table''), [])"
    if "?b = UNKNOWN \<and> \<not> stat_ok env (?f @ ''.DB'') \<and> \<not> stat_ok env (?f @ ''.glass'')"
    using that by (simp add: res infer_backend_def)
  have trim: "(suffix ''.'' path \<longrightarrow> path = ?f @ ''.'' \<and> ?b = UNKNOWN) \<and>
      (\<not> suffix ''.'' path \<and> suffix ''.DB'' path \<longrightarrow> path = ?f @ ''.DB'' \<and> ?b = CHERT) \<and>
      (\<not> suffix ''.'' path \<and> \<not> suffix ''.DB'' path \<and> suffix ''.glass'' path \<longrightarrow>
         path = ?f @ ''.glass'' \<and> ?b = GLASS) \<and>
      (\<not> suffix ''.'' path \<and> \<not> suffix ''.DB'' path \<and> \<not> suffix ''.glass'' path \<longrightarrow>
         ?f = path \<and> ?b = UNKNOWN)"
    by (cases path rule: trim_suffix_cases) simp_all
  show ?thesis
    unfolding Let_def
  proof (intro conjI impI)
    assume h: "\<not> suffix ''.'' path \<and> suffix ''.DB'' path"
    with trim show "path = ?f @ ''.DB''" and c: "?b = CHERT"
      by blast+
    from c show "check env path opts out = ?chert"
      by (rule fixed_chert)
  next
    assume h: "\<not> suffix ''.'' path \<and> \<not> suffix ''.DB'' path \<and> suffix ''.glass'' path"
    with trim show "path = ?f @ ''.glass''" and g: "?b = GLASS"
      by blast+
    from g show "check env path opts out = ?glass"
      by (rule fixed_glass)
  next
    assume "suffix ''.'' path"
    with trim show "path = ?f @ ''.''" and "?b = UNKNOWN"
      by blast+
  next
    assume "\<not> suffix ''.'' path \<and> \<not> suffix ''.DB'' path \<and> \<not> suffix ''.glass'' path"
    with trim show "?f = path" and "?b = UNKNOWN"
      by blast+
  next
    assume "?b = UNKNOWN \<and> stat_ok env (?f @ ''.DB'')"
    then show "check env path opts out = ?chert"
      by (rule probe_chert)
  next
    assume "?b = UNKNOWN \<and> \<not> stat_ok env (?f @ ''.DB'') \<and> stat_ok env (?f @ ''.glass'')"
    then show "check env path opts out = ?glass"
      by (rule probe_glass)
  next
    assume "?b = UNKNOWN \<and> \<not> stat_ok env (?f @ ''.DB'') \<and> \<not> stat_ok env (?f @ ''.glass'')"
    then show "check env path opts out =
        (Inl (DatabaseError ''Not a Xapian database or database table''), [])"
      by (rule probe_none)
  qed
qed


lemmas bare_defs =
  trim_suffix_def infer_backend_def endswith_def endswith_char_def split_pos_def dir_of_def
  tablename_of_def tolower_def

lemma env0_glass_table_run:
  "check env0 ''db/postlist.glass'' 0 False =
     (Inr 0,
      [GlassVersionRead ''db/'',
       CheckGlassTable ''postlist'' ''db/'' \<lparr>gv_revision = 3, gv_last_docid = 5\<rparr> 0
         \<lparr>elems = [], capacity = 0\<rparr> (- 1) False])"
  by (simp add: run_defs bare_defs env0_def)

theorem bare_table_resolution_witness:
  "suffix ''.'' ''db/Postlist.'' \<and>
   stat_ok env_both_suffixes (''db/Postlist'' @ ''.DB'') \<and>
   stat_ok env_both_suffixes (''db/Postlist'' @ ''.glass'') \<and>
   check env_both_suffixes ''db/Postlist.'' 0 False =
     (Inr 0,
      [CheckChertTable ''postlist'' ''db/Postlist'' None 0 \<lparr>elems = [], capacity = 0\<rparr> (- 1)
         False]) \<and>
   check env_glass_suffix ''db/Postlist'' 0 False =
     (Inr 0,
      [GlassVersionRead ''db/'',
       CheckGlassTable ''postlist'' ''db/'' \<lparr>gv_revision = 3, gv_last_docid = 5\<rparr> 0
         \<lparr>elems = [], capacity = 0\<rparr> (- 1) False]) \<and>
   check env0 ''db/Postlist'' 0 False =
     (Inl (DatabaseError ''Not a Xapian database or database table''), []) \<and>
   check env0 ''db/postlist.DB'' 0 False =
     (Inr 0,
      [CheckChertTable ''postlist'' ''db/postlist'' None 0 \<lparr>elems = [], capacity = 0\<rparr> (- 1)
         False]) \<and>
   check env0 ''db/postlist.glass'' 0 False =
     (Inr 0,
      [GlassVersionRead ''db/'',
       CheckGlassTable ''postlist'' ''db/'' \<lparr>gv_revision = 3, gv_last_docid = 5\<rparr> 0
         \<lparr>elems = [], capacity = 0\<rparr> (- 1) False])"
proof -
  have m0: "\<not> stat_ok env0 p" for p
    by (simp add: env0_def)
  have m1: "stat_ok env_both_suffixes p = (p = ''db/Postlist.DB'' \<or> p = ''db/Postlist.glass'')"
    for p
    by (simp add: env_both_suffixes_def)
  have m2: "stat_ok env_glass_suffix p = (p = ''db/Postlist.glass'')" for p
    by (simp add: env_glass_suffix_def)
  have t1: "trim_suffix ''db/Postlist.'' = (''db/Postlist'', UNKNOWN)"
    "trim_suffix ''db/Postlist'' = (''db/Postlist'', UNKNOWN)"
    "trim_suffix ''db/postlist.DB'' = (''db/postlist'', CHERT)"
    "trim_suffix ''db/postlist.glass'' = (''db/postlist'', GLASS)"
    by (simp_all add: trim_suffix_def endswith_def endswith_char_def)
  have s1: "suffix ''.'' ''db/Postlist.''" "\<not> suffix ''.'' ''db/Postlist''"
    "\<not> suffix ''.DB'' ''db/Postlist''" "\<not> suffix ''.glass'' ''db/Postlist''"
    "\<not> suffix ''.'' ''db/postlist.DB''" "suffix ''.DB'' ''db/postlist.DB''"
    "\<not> suffix ''.'' ''db/postlist.glass''" "\<not> suffix ''.DB'' ''db/postlist.glass''"
    "suffix ''.glass'' ''db/postlist.glass''"
    by (simp_all add: endswith_suffix [symmetric] endswith_def)
  have d1: "dir_of ''db/Postlist'' = ''db/''" "tablename_of ''db/Postlist'' = ''postlist''"
    "dir_of ''db/postlist'' = ''db/''" "tablename_of ''db/postlist'' = ''postlist''"
    by (simp_all add: dir_of_def tablename_of_def split_pos_def tolower_def)
  have e1: "check_bare_chert env_both_suffixes ''db/Postlist'' ''db/'' ''postlist'' 0 False init_st =
      (None, \<lparr>doclens = empty_vec, errors = 0, rev_num = 0,
         trace = [CheckChertTable ''postlist'' ''db/Postlist'' None 0 empty_vec (- 1) False]\<rparr>)"
    by (simp add: check_bare_chert_def m1 Let_def log_def init_st_def env_both_suffixes_def
        env0_def)
  have e2: "check_bare_glass env_glass_suffix ''db/'' ''postlist'' 0 False init_st =
      (None, \<lparr>doclens = empty_vec, errors = 0, rev_num = 0,
         trace = [GlassVersionRead ''db/'',
           CheckGlassTable ''postlist'' ''db/'' \<lparr>gv_revision = 3, gv_last_docid = 5\<rparr> 0 empty_vec
             (- 1) False]\<rparr>)"
    by (simp add: check_bare_glass_def Let_def log_def init_st_def env_glass_suffix_def env0_def)
  have e3: "check_bare_chert env0 ''db/postlist'' ''db/'' ''postlist'' 0 False init_st =
      (None, \<lparr>doclens = empty_vec, errors = 0, rev_num = 0,
         trace = [CheckChertTable ''postlist'' ''db/postlist'' None 0 empty_vec (- 1) False]\<rparr>)"
    by (simp add: check_bare_chert_def Let_def log_def init_st_def env0_def)
  have e4: "check_bare_glass env0 ''db/'' ''postlist'' 0 False init_st =
      (None, \<lparr>doclens = empty_vec, errors = 0, rev_num = 0,
         trace = [GlassVersionRead ''db/'',
           CheckGlassTable ''postlist'' ''db/'' \<lparr>gv_revision = 3, gv_last_docid = 5\<rparr> 0 empty_vec
             (- 1) False]\<rparr>)"
    by (simp add: check_bare_glass_def Let_def log_def init_st_def env0_def)
  have o: "effective_opts env 0 False = 0" for env
    by (simp add: effective_opts_def)
  show ?thesis
    using
      bare_table_resolution [of env_both_suffixes "''db/Postlist.''" 0 False]
      bare_table_resolution [of env_glass_suffix "''db/Postlist''" 0 False]
      bare_table_resolution [of env0 "''db/Postlist''" 0 False]
      bare_table_resolution [of env0 "''db/postlist.DB''" 0 False]
      bare_table_resolution [of env0 "''db/postlist.glass''" 0 False]
    by (simp add: Let_def m0 m1 m2 t1 s1 d1 e1 e2 e3 e4 o empty_vec_def)
qed

section \<open>Checking a single table\<close>

lemma tolower_no_upper: "tolower c \<notin> set ''ABCDEFGHIJKLMNOPQRSTUVWXYZ''"
proof -
  define U where "U = ''ABCDEFGHIJKLMNOPQRSTUVWXYZ''"
  define L where "L = ''abcdefghijklmnopqrstuvwxyz''"
  have len: "length U = length L"
    by (simp add: U_def L_def)
  have disj: "set L \<inter> set U = {}"
    by (simp add: U_def L_def)
  have "tolower c \<notin> set U"
  proof (cases "map_of (zip U L) c")
    case None
    then have "c \<notin> fst ` set (zip U L)"
      by (simp add: map_of_eq_None_iff)
    moreover have "fst ` set (zip U L) = set U"
      using len by (metis map_fst_zip set_map)
    ultimately have "c \<notin> set U"
      by simp
    then show ?thesis
      using None by (simp add: tolower_def U_def [symmetric] L_def [symmetric])
  next
    case (Some l)
    then have "(c, l) \<in> set (zip U L)"
      by (rule map_of_SomeD)
    then have "l \<in> set L"
      by (rule set_zip_rightD)
    with disj have "l \<notin> set U"
      by blast
    then show ?thesis
      using Some by (simp add: tolower_def U_def [symmetric] L_def [symmetric])
  qed
  then show ?thesis
    unfolding U_def .
qed

lemma infer_backend_known: "infer_backend env f b \<noteq> Inr UNKNOWN"
  by (simp add: infer_backend_def)

lemma bare_chert_result:
  "finish (check_bare_chert env f d t opts out init_st) =
     (if stat_ok env (d @ ''/iamflint'') then (Inl (FeatureUnavailableError msg_flint), [])
      else if stat_ok env (d @ ''/iambrass'') then (Inl (FeatureUnavailableError msg_brass), [])
      else if \<not> has_chert_backend env
      then (Inl (FeatureUnavailableError ''Chert database support isn't enabled''), [])
      else
        (case check_chert_table env t f None opts empty_vec (- 1) out of
           Inl e \<Rightarrow> (Inl e, [CheckChertTable t f None opts empty_vec (- 1) out])
         | Inr (n, v, r) \<Rightarrow> (Inr n, [CheckChertTable t f None opts empty_vec (- 1) out])))"
  by (simp add: check_bare_chert_def Let_def split: sum.split prod.split)

lemma bare_glass_result:
  "finish (check_bare_glass env d t opts out init_st) =
     (if \<not> has_glass_backend env
      then (Inl (FeatureUnavailableError ''Glass database support isn't enabled''), [])
      else
        (case glass_version_read env d of
           Inl e \<Rightarrow> (Inl e, [GlassVersionRead d])
         | Inr g \<Rightarrow>
             (case check_glass_table env t d g opts empty_vec (- 1) out of
                Inl e \<Rightarrow>
                  (Inl e, [GlassVersionRead d, CheckGlassTable t d g opts empty_vec (- 1) out])
              | Inr (n, v) \<Rightarrow>
                  (Inr n, [GlassVersionRead d, CheckGlassTable t d g opts empty_vec (- 1) out]))))"
  by (simp add: check_bare_glass_def Let_def split: sum.split prod.split)

lemma check_bare_result:
  assumes "\<not> stat_ok env (path @ ''/iamchert'')" and "\<not> stat_ok env (path @ ''/iamglass'')"
    and "\<not> stat_ok env (path @ ''/iamflint'')" and "\<not> stat_ok env (path @ ''/iambrass'')"
    and "\<not> stat_ok env (path @ ''/record_DB'')"
  shows "check env path opts out =
    (let f = fst (trim_suffix path); opts' = effective_opts env opts out in
     case infer_backend env f (snd (trim_suffix path)) of
       Inl e \<Rightarrow> (Inl e, [])
     | Inr UNKNOWN \<Rightarrow> (Inr 0, [])
     | Inr CHERT \<Rightarrow> finish (check_bare_chert env f (dir_of f) (tablename_of f) opts' out init_st)
     | Inr GLASS \<Rightarrow> finish (check_bare_glass env (dir_of f) (tablename_of f) opts' out init_st))"
  using check_bare [OF assms(1,2)] check_single_resolved [OF assms(3,4,5) surjective_pairing]
  by (simp add: Let_def split: sum.split backend.split)


lemma find_last_of_None: "(find_last_of s c = None) = (c \<notin> set s)"
  by (induction s) (auto split: option.splits)

lemma find_last_of_Some:
  "find_last_of s c = Some i \<Longrightarrow> i < length s \<and> s ! i = c \<and> c \<notin> set (drop (Suc i) s)"
proof (induction s arbitrary: i)
  case Nil
  then show ?case by simp
next
  case (Cons x xs)
  show ?case
  proof (cases "find_last_of xs c")
    case None
    with Cons.prems have "x = c" and "i = 0"
      by (simp_all split: if_splits)
    with None show ?thesis
      by (simp add: find_last_of_None)
  next
    case (Some j)
    with Cons.prems have "i = Suc j"
      by simp
    with Cons.IH [OF Some] show ?thesis
      by simp
  qed
qed

lemma split_at_last_slash:
  "filename = dir_of filename @ drop (length (dir_of filename)) filename \<and>
   CHR ''/'' \<notin> set (drop (length (dir_of filename)) filename) \<and>
   (dir_of filename = [] \<or> last (dir_of filename) = CHR ''/'') \<and>
   tablename_of filename = map tolower (drop (length (dir_of filename)) filename)"
proof (cases "find_last_of filename CHR ''/''")
  case None
  then have "split_pos filename = 0"
    by (simp add: split_pos_def)
  with None show ?thesis
    by (simp add: dir_of_def tablename_of_def find_last_of_None)
next
  case (Some i)
  then have p: "split_pos filename = Suc i"
    by (simp add: split_pos_def)
  from find_last_of_Some [OF Some]
  have i: "i < length filename" and at: "filename ! i = CHR ''/''"
    and rest: "CHR ''/'' \<notin> set (drop (Suc i) filename)"
    by simp_all
  from i have len: "length (take (Suc i) filename) = Suc i"
    by simp
  from i at have "last (take (Suc i) filename) = CHR ''/''"
    by (simp add: take_Suc_conv_app_nth)
  with rest len show ?thesis
    by (simp add: dir_of_def tablename_of_def p)
qed

section \<open>One call of the per-table checker\<close>

text \<open>
  C9, as stated, fails for a glass table: the checker is not called without revision
  context. In this run \<open>check\<close> reads the version file of the table's directory \<open>db/\<close> and
  hands it, with revision 3, and the directory to \<open>check_glass_table\<close>.
\<close>

theorem single_glass_table_revision_counterexample:
  "check env0 ''db/postlist.glass'' 0 False =
     (Inr 0,
      [GlassVersionRead ''db/'',
       CheckGlassTable ''postlist'' ''db/'' \<lparr>gv_revision = 3, gv_last_docid = 5\<rparr> 0
         \<lparr>elems = [], capacity = 0\<rparr> (- 1) False]) \<and>
   map check_rev_context (table_checks (snd (check env0 ''db/postlist.glass'' 0 False))) =
     [Some 3]"
  by (simp add: env0_glass_table_run)

text \<open>
  C9, amended. For a path that contains a \<open>/\<close> and has no whole-database or
  retired-format marker, the trimmed path splits at its last \<open>/\<close> into the table's
  directory \<open>dir\<close> (up to and including that \<open>/\<close>) and the rest, whose lower-cased form is
  the table name. The per-table checker is called at most once, with that name, an
  empty vector of document lengths and the maximal docid. A chert table is checked with
  its full trimmed path and a null revision pointer, and nothing else happens; for a
  glass table the version file of \<open>dir\<close> is read first and handed to the checker
  together with \<open>dir\<close>, so the checker does receive the revision. When \<open>check\<close> returns,
  exactly one such call was made and the count returned is the count of that call. The
  call is reached, and \<open>check\<close> returns its count, whenever the backend is enabled,
  neither \<open>dir + "/iamflint"\<close> nor \<open>dir + "/iambrass"\<close> exists for a chert table (the
  version file of \<open>dir\<close> can be read for a glass table), and the checker returns. A path
  without a \<open>/\<close> is left aside here.
\<close>

theorem single_table_checked_once:
  assumes "\<not> stat_ok env (path @ ''/iamchert'')" and "\<not> stat_ok env (path @ ''/iamglass'')"
    and "\<not> stat_ok env (path @ ''/iamflint'')" and "\<not> stat_ok env (path @ ''/iambrass'')"
    and "\<not> stat_ok env (path @ ''/record_DB'')"
    and "CHR ''/'' \<in> set path"
  shows
    "(let filename = fst (trim_suffix path);
          backend = infer_backend env filename (snd (trim_suffix path));
          dir = dir_of filename;
          base = drop (length dir) filename;
          tablename = tablename_of filename;
          opts' = effective_opts env opts out;
          chert_ev = CheckChertTable tablename filename None opts' empty_vec (- 1) out;
          glass_ev = (\<lambda>g. CheckGlassTable tablename dir g opts' empty_vec (- 1) out);
          r = fst (check env path opts out);
          tr = snd (check env path opts out)
      in filename = dir @ base \<and> CHR ''/'' \<notin> set base \<and>
         dir \<noteq> [] \<and> last dir = CHR ''/'' \<and>
         tablename = map tolower base \<and>
         (\<forall>c\<in>set tablename. c \<notin> set ''ABCDEFGHIJKLMNOPQRSTUVWXYZ'') \<and>
         (table_checks tr = [] \<or> table_checks tr = [chert_ev] \<or>
          (\<exists>g. glass_version_read env dir = Inr g \<and> table_checks tr = [glass_ev g])) \<and>
         (r = Inr n \<longrightarrow>
            tr = [chert_ev] \<and> n = check_errors env chert_ev \<or>
            (\<exists>g. glass_version_read env dir = Inr g \<and>
                 tr = [GlassVersionRead dir, glass_ev g] \<and>
                 n = check_errors env (glass_ev g))) \<and>
         check_rev_context chert_ev = None \<and> check_last_docid chert_ev = - 1 \<and>
         check_rev_context (glass_ev g) = Some (gv_revision g) \<and>
         check_last_docid (glass_ev g) = - 1 \<and>
         (backend = Inr CHERT \<and> \<not> stat_ok env (dir @ ''/iamflint'') \<and>
          \<not> stat_ok env (dir @ ''/iambrass'') \<and> has_chert_backend env \<and>
          check_chert_table env tablename filename None opts' empty_vec (- 1) out =
            Inr (n, v, rv) \<longrightarrow>
            check env path opts out = (Inr n, [chert_ev])) \<and>
         (backend = Inr GLASS \<and> has_glass_backend env \<and> glass_version_read env dir = Inr g \<and>
          check_glass_table env tablename dir g opts' empty_vec (- 1) out = Inr (n, v') \<longrightarrow>
            check env path opts out = (Inr n, [GlassVersionRead dir, glass_ev g])))"
proof -
  let ?f = "fst (trim_suffix path)"
  let ?bk = "infer_backend env ?f (snd (trim_suffix path))"
  let ?d = "dir_of ?f"
  let ?t = "tablename_of ?f"
  let ?opts = "effective_opts env opts out"
  let ?cev = "CheckChertTable ?t ?f None ?opts empty_vec (- 1) out"
  let ?gev = "\<lambda>g. CheckGlassTable ?t ?d g ?opts empty_vec (- 1) out"
  let ?r = "fst (check env path opts out)"
  let ?tr = "snd (check env path opts out)"
  note chk = check_bare_result [OF assms(1-5), of opts out, unfolded Let_def]
  note split = split_at_last_slash [of ?f]
  have "CHR ''/'' \<in> set ?f"
    using assms(6) by (cases path rule: trim_suffix_cases) auto
  with split have "CHR ''/'' \<in> set ?d"
    by (metis Un_iff set_append)
  then have nonempty: "?d \<noteq> []"
    by auto
  with split have slash: "last ?d = CHR ''/''"
    by blast
  have lower: "\<forall>c\<in>set ?t. c \<notin> set ''ABCDEFGHIJKLMNOPQRSTUVWXYZ''"
  proof
    fix c
    assume "c \<in> set ?t"
    then obtain x where c: "c = tolower x"
      unfolding tablename_of_def by auto
    show "c \<notin> set ''ABCDEFGHIJKLMNOPQRSTUVWXYZ''"
      unfolding c by (rule tolower_no_upper)
  qed
  have once: "table_checks ?tr = [] \<or> table_checks ?tr = [?cev] \<or>
      (\<exists>g. glass_version_read env ?d = Inr g \<and> table_checks ?tr = [?gev g])"
  proof (cases ?bk)
    case (Inl e)
    then show ?thesis
      by (simp add: chk)
  next
    case (Inr b)
    show ?thesis
    proof (cases b)
      case UNKNOWN
      with Inr show ?thesis
        by (simp add: infer_backend_known)
    next
      case CHERT
      with Inr show ?thesis
        by (simp add: chk bare_chert_result split: sum.split prod.split)
    next
      case GLASS
      with Inr show ?thesis
        by (simp add: chk bare_glass_result split: sum.split prod.split)
    qed
  qed
  have ret: "?tr = [?cev] \<and> n = check_errors env ?cev \<or>
      (\<exists>g. glass_version_read env ?d = Inr g \<and> ?tr = [GlassVersionRead ?d, ?gev g] \<and>
           n = check_errors env (?gev g))"
    if "?r = Inr n"
  proof (cases ?bk)
    case (Inl e)
    with that show ?thesis
      by (simp add: chk)
  next
    case (Inr b)
    show ?thesis
    proof (cases b)
      case UNKNOWN
      with Inr show ?thesis
        by (simp add: infer_backend_known)
    next
      case CHERT
      with Inr that have "?tr = [?cev] \<and> n = check_errors env ?cev"
        by (simp add: chk bare_chert_result split: sum.splits prod.splits if_splits)
      then show ?thesis
        by (rule disjI1)
    next
      case GLASS
      with Inr have res: "check env path opts out =
          finish (check_bare_glass env ?d ?t ?opts out init_st)"
        by (simp add: chk)
      have "\<exists>g. glass_version_read env ?d = Inr g \<and>
          ?tr = [GlassVersionRead ?d, ?gev g] \<and> n = check_errors env (?gev g)"
      proof (cases "glass_version_read env ?d")
        case (Inl e)
        with that show ?thesis
          by (simp add: res bare_glass_result split: if_splits)
      next
        case g: (Inr g)
        show ?thesis
        proof (cases "check_glass_table env ?t ?d g ?opts empty_vec (- 1) out")
          case (Inl e)
          with that g show ?thesis
            by (simp add: res bare_glass_result split: if_splits)
        next
          case (Inr x)
          obtain n' v where x: "x = (n', v)"
            by (cases x)
          from that g Inr x have "?tr = [GlassVersionRead ?d, ?gev g]" and "n = n'"
            by (simp_all add: res bare_glass_result split: if_splits)
          moreover have "check_errors env (?gev g) = n'"
            using Inr x by simp
          ultimately show ?thesis
            using g by (intro exI [of _ g]) simp
        qed
      qed
      then show ?thesis
        by (rule disjI2)
    qed
  qed
  have reach_chert: "check env path opts out = (Inr n, [?cev])"
    if "?bk = Inr CHERT \<and> \<not> stat_ok env (?d @ ''/iamflint'') \<and>
      \<not> stat_ok env (?d @ ''/iambrass'') \<and> has_chert_backend env \<and>
      check_chert_table env ?t ?f None ?opts empty_vec (- 1) out = Inr (n, v, rv)"
    using that by (simp add: chk bare_chert_result)
  have reach_glass: "check env path opts out = (Inr n, [GlassVersionRead ?d, ?gev g])"
    if "?bk = Inr GLASS \<and> has_glass_backend env \<and> glass_version_read env ?d = Inr g \<and>
      check_glass_table env ?t ?d g ?opts empty_vec (- 1) out = Inr (n, v')"
    using that by (simp add: chk bare_glass_result)
  show ?thesis
    unfolding Let_def
  proof (intro conjI impI)
    show "?f = ?d @ drop (length ?d) ?f" and "CHR ''/'' \<notin> set (drop (length ?d) ?f)"
      and "?t = map tolower (drop (length ?d) ?f)"
      using split by blast+
    show "?d \<noteq> []"
      by (rule nonempty)
    show "last ?d = CHR ''/''"
      by (rule slash)
    show "\<forall>c\<in>set ?t. c \<notin> set ''ABCDEFGHIJKLMNOPQRSTUVWXYZ''"
      by (rule lower)
    show "table_checks ?tr = [] \<or> table_checks ?tr = [?cev] \<or>
        (\<exists>g. glass_version_read env ?d = Inr g \<and> table_checks ?tr = [?gev g])"
      by (rule once)
    show "?tr = [?cev] \<and> n = check_errors env ?cev \<or>
        (\<exists>g. glass_version_read env ?d = Inr g \<and> ?tr = [GlassVersionRead ?d, ?gev g] \<and>
             n = check_errors env (?gev g))"
      if "?r = Inr n"
      using that by (rule ret)
    show "check_rev_context ?cev = None" and "check_last_docid ?cev = - 1"
      and "check_rev_context (?gev g) = Some (gv_revision g)"
      and "check_last_docid (?gev g) = - 1"
      by simp_all
    show "check env path opts out = (Inr n, [?cev])"
      if "?bk = Inr CHERT \<and> \<not> stat_ok env (?d @ ''/iamflint'') \<and>
        \<not> stat_ok env (?d @ ''/iambrass'') \<and> has_chert_backend env \<and>
        check_chert_table env ?t ?f None ?opts empty_vec (- 1) out = Inr (n, v, rv)"
      using that by (rule reach_chert)
    show "check env path opts out = (Inr n, [GlassVersionRead ?d, ?gev g])"
      if "?bk = Inr GLASS \<and> has_glass_backend env \<and> glass_version_read env ?d = Inr g \<and>
        check_glass_table env ?t ?d g ?opts empty_vec (- 1) out = Inr (n, v')"
      using that by (rule reach_glass)
  qed
qed


theorem single_table_checked_once_witness:
  "infer_backend env0 ''db/PostList'' CHERT = Inr CHERT \<and>
   \<not> stat_ok env0 (''db/'' @ ''/iamflint'') \<and> \<not> stat_ok env0 (''db/'' @ ''/iambrass'') \<and>
   has_chert_backend env0 \<and> has_glass_backend env0 \<and>
   check_chert_table env0 ''postlist'' ''db/PostList'' None 0 empty_vec (- 1) False =
     Inr (0, empty_vec, 0) \<and>
   check env0 ''db/PostList.DB'' 0 False =
     (Inr 0, [CheckChertTable ''postlist'' ''db/PostList'' None 0 empty_vec (- 1) False]) \<and>
   glass_version_read env0 ''db/'' = Inr \<lparr>gv_revision = 3, gv_last_docid = 5\<rparr> \<and>
   check env0 ''db/PostList.glass'' 0 False =
     (Inr 0,
      [GlassVersionRead ''db/'',
       CheckGlassTable ''postlist'' ''db/'' \<lparr>gv_revision = 3, gv_last_docid = 5\<rparr> 0 empty_vec
         (- 1) False])"
proof -
  have m0: "\<not> stat_ok env0 p" for p
    by (simp add: env0_def)
  have b: "has_chert_backend env0" "has_glass_backend env0"
    by (simp_all add: env0_def)
  have t: "trim_suffix ''db/PostList.DB'' = (''db/PostList'', CHERT)"
    "trim_suffix ''db/PostList.glass'' = (''db/PostList'', GLASS)"
    by (simp_all add: trim_suffix_def endswith_def endswith_char_def)
  have d: "dir_of ''db/PostList'' = ''db/''" "tablename_of ''db/PostList'' = ''postlist''"
    by (simp_all add: dir_of_def tablename_of_def split_pos_def tolower_def)
  have i: "infer_backend env0 ''db/PostList'' CHERT = Inr CHERT"
    "infer_backend env0 ''db/PostList'' GLASS = Inr GLASS"
    by (simp_all add: infer_backend_def)
  have c: "check_chert_table env0 ''postlist'' ''db/PostList'' None 0 empty_vec (- 1) False =
      Inr (0, empty_vec, 0)"
    "check_glass_table env0 ''postlist'' ''db/'' \<lparr>gv_revision = 3, gv_last_docid = 5\<rparr> 0 empty_vec
       (- 1) False = Inr (0, empty_vec)"
    "glass_version_read env0 ''db/'' = Inr \<lparr>gv_revision = 3, gv_last_docid = 5\<rparr>"
    by (simp_all add: env0_def)
  have o: "effective_opts env0 0 False = 0"
    by (simp add: effective_opts_def)
  have sl: "CHR ''/'' \<in> set ''db/PostList.DB''" "CHR ''/'' \<in> set ''db/PostList.glass''"
    by simp_all
  show ?thesis
    using
      single_table_checked_once [OF m0 m0 m0 m0 m0 sl(1), where opts = 0 and out = False
        and n = 0 and v = empty_vec and rv = 0
        and g = "\<lparr>gv_revision = 3, gv_last_docid = 5\<rparr>" and v' = empty_vec]
      single_table_checked_once [OF m0 m0 m0 m0 m0 sl(2), where opts = 0 and out = False
        and n = 0 and v = empty_vec and rv = 0
        and g = "\<lparr>gv_revision = 3, gv_last_docid = 5\<rparr>" and v' = empty_vec]
    by (simp add: Let_def m0 b t d i c o tolower_def)
qed

section \<open>Retired formats\<close>

lemma retired_formats_rejected:
  assumes "\<not> stat_ok env (path @ ''/iamchert'')" and "\<not> stat_ok env (path @ ''/iamglass'')"
  shows "stat_ok env (path @ ''/iamflint'') \<Longrightarrow>
      check env path opts out = (Inl (FeatureUnavailableError msg_flint), [])"
    and "\<not> stat_ok env (path @ ''/iamflint'') \<Longrightarrow> stat_ok env (path @ ''/iambrass'') \<Longrightarrow>
      check env path opts out = (Inl (FeatureUnavailableError msg_brass), [])"
    and "\<not> stat_ok env (path @ ''/iamflint'') \<Longrightarrow> \<not> stat_ok env (path @ ''/iambrass'') \<Longrightarrow>
      stat_ok env (path @ ''/record_DB'') \<Longrightarrow>
      check env path opts out = (Inl (FeatureUnavailableError msg_quartz), [])"
    and "msg_flint \<noteq> msg_brass \<and> msg_flint \<noteq> msg_quartz \<and> msg_brass \<noteq> msg_quartz"
  using assms
  by (simp_all add: check_bare check_single_table_def msg_flint_def msg_brass_def msg_quartz_def)

lemma retired_directory_rejected:
  assumes "\<not> stat_ok env (path @ ''/iamchert'')" and "\<not> stat_ok env (path @ ''/iamglass'')"
    and "\<not> stat_ok env (path @ ''/iamflint'')" and "\<not> stat_ok env (path @ ''/iambrass'')"
    and "\<not> stat_ok env (path @ ''/record_DB'')"
    and "infer_backend env (fst (trim_suffix path)) (snd (trim_suffix path)) = Inr CHERT"
  shows "stat_ok env (dir_of (fst (trim_suffix path)) @ ''/iamflint'') \<Longrightarrow>
      check env path opts out = (Inl (FeatureUnavailableError msg_flint), [])"
    and "\<not> stat_ok env (dir_of (fst (trim_suffix path)) @ ''/iamflint'') \<Longrightarrow>
      stat_ok env (dir_of (fst (trim_suffix path)) @ ''/iambrass'') \<Longrightarrow>
      check env path opts out = (Inl (FeatureUnavailableError msg_brass), [])"
  using assms(6)
  by (simp_all add: check_bare_result [OF assms(1-5)] Let_def bare_chert_result)

text \<open>
  C6. The markers of the retired formats are tested in the order \<open>iamflint\<close>,
  \<open>iambrass\<close>, \<open>record_DB\<close>, before anything else and whatever the options
  (\<open>retired_formats_rejected\<close>), and a single chert table is refused when
  \<open>dir + "/iamflint"\<close> or \<open>dir + "/iambrass"\<close> exists (\<open>retired_directory_rejected\<close>). But
  \<open>dir\<close> is the path up to and including its last \<open>/\<close>, and empty when the path has
  none: then the file probed is \<open>/iamflint\<close>, in the root directory, and not the one in
  the directory that holds the table. In this run \<open>check\<close> is called on \<open>postlist.DB\<close> in
  a current directory that is a flint database; it does not throw, and hands the flint
  table to the chert checker.
\<close>

theorem flint_table_in_current_directory:
  "stat_ok env_flint_cwd ''iamflint'' \<and> stat_ok env_flint_cwd ''./iamflint'' \<and>
   stat_ok env_flint_cwd ''postlist.DB'' \<and>
   dir_of (fst (trim_suffix ''postlist.DB'')) = [] \<and>
   \<not> stat_ok env_flint_cwd ([] @ ''/iamflint'') \<and>
   check env_flint_cwd ''postlist.DB'' 0 False =
     (Inr 0, [CheckChertTable ''postlist'' ''postlist'' None 0 empty_vec (- 1) False])"
  by (simp add: run_defs bare_defs env_flint_cwd_def env0_def)

section \<open>Counts that wrap\<close>

text \<open>
  The count is a \<open>size_t\<close>. With a failed open, \<open>SIZE_MAX\<close> errors in the record table and
  one in the postlist table, \<open>check\<close> returns 1; with a failed open of a glass database
  and \<open>SIZE_MAX\<close> errors in its docdata table, it returns 0.
\<close>

lemma env_open_fails_count_wraps_run:
  "fst (check env_open_fails_count_wraps ''db'' 16 False) = Inr 1"
  by (simp add: run_defs msg_absent_def env_open_fails_count_wraps_def env_count_wraps_def
      env_chert_bare_def env0_def)

lemma env_glass_count_wraps_run:
  "fst (check env_glass_count_wraps ''db'' 0 False) = Inr 0"
  by (simp add: run_defs changes_loop.simps str_digits env_glass_count_wraps_def
      env_glass_open_fails_def env_glass_def env0_def)

end
